theory Spec2Isabelle
  imports Main "HOL-Library.Word"
begin

unbundle bit_operations_syntax

section \<open>Arbitrary-precision integers (the operations of math/big the decimal uses)\<close>

text \<open>
  A \<open>big.Int\<close> is an unbounded integer, so it is an \<open>int\<close>. The library has two
  divisions: \<open>Quo\<close>/\<open>Rem\<close>/\<open>QuoRem\<close> truncate towards zero, \<open>Div\<close>/\<open>Mod\<close>/\<open>DivMod\<close>
  are Euclidean (the modulus is never negative). \<open>Exp x y nil\<close> is \<open>x ** y\<close>, and 1 when
  \<open>y \<le> 0\<close>. Each of the divisions panics on a zero divisor; the callers below that divide
  by a power of ten never meet it, and \<open>quoRem\<close> writes the panic out.
\<close>

definition big_Sign :: "int \<Rightarrow> int" where
  "big_Sign x = (if x < 0 then - 1 else if x = 0 then 0 else 1)"

definition big_Cmp :: "int \<Rightarrow> int \<Rightarrow> int" where
  "big_Cmp x y = (if x < y then - 1 else if x = y then 0 else 1)"

definition big_Quo :: "int \<Rightarrow> int \<Rightarrow> int" where
  "big_Quo x y = big_Sign x * big_Sign y * (\<bar>x\<bar> div \<bar>y\<bar>)"

definition big_Rem :: "int \<Rightarrow> int \<Rightarrow> int" where
  "big_Rem x y = x - y * big_Quo x y"

definition big_Div :: "int \<Rightarrow> int \<Rightarrow> int" where
  "big_Div x y = big_Sign y * (x div \<bar>y\<bar>)"

definition big_Mod :: "int \<Rightarrow> int \<Rightarrow> int" where
  "big_Mod x y = x mod \<bar>y\<bar>"

definition big_Exp :: "int \<Rightarrow> int \<Rightarrow> int" where
  "big_Exp x y = (if y \<le> 0 then 1 else x ^ nat y)"

section \<open>The Decimal value type\<close>

type_synonym int32 = "32 word"

text \<open>\<open>number = value * 10 ^ exp\<close>; the exponent is a Go \<open>int32\<close>, whose arithmetic wraps.\<close>

record Decimal =
  "value" :: int
  exp :: int32

datatype panic = DivisionByZero | QuoRemOverflow | ExponentOverflow | BigDivisionByZero
  | SliceBoundsOutOfRange

abbreviation (input) MaxInt32 :: int where "MaxInt32 \<equiv> 2147483647"
abbreviation (input) MinInt32 :: int where "MinInt32 \<equiv> - 2147483648"

abbreviation (input) SignPositive :: int where "SignPositive \<equiv> 1"
abbreviation (input) SignNeutral :: int where "SignNeutral \<equiv> 0"
abbreviation (input) SignNegative :: int where "SignNegative \<equiv> - 1"

abbreviation (input) zeroInt :: int where "zeroInt \<equiv> 0"
abbreviation (input) oneInt :: int where "oneInt \<equiv> 1"
abbreviation (input) fiveInt :: int where "fiveInt \<equiv> 5"
abbreviation (input) tenInt :: int where "tenInt \<equiv> 10"

definition divisionPrecision :: int32 where
  "divisionPrecision = 16"

definition buildDecimal :: "int \<Rightarrow> int32 \<Rightarrow> Decimal" where
  "buildDecimal v e = \<lparr>value = v, exp = e\<rparr>"

definition min_int32 :: "int32 \<Rightarrow> int32 \<Rightarrow> int32" where
  "min_int32 x y = (if sint y \<le> sint x then y else x)"

text \<open>
  \<open>rescale\<close>: the difference of the exponents is taken in \<open>float64\<close>, which holds every
  difference of two \<open>int32\<close> exactly, so \<open>diff\<close> is the mathematical absolute difference.
\<close>

definition rescale :: "Decimal \<Rightarrow> int32 \<Rightarrow> Decimal" where
  "rescale d e =
     (let diff = \<bar>sint e - sint (exp d)\<bar>;
          expScale = big_Exp tenInt diff
      in \<lparr>value = (if sint (exp d) < sint e then big_Quo (value d) expScale
                   else if sint e < sint (exp d) then value d * expScale
                   else value d),
          exp = e\<rparr>)"

definition Abs :: "Decimal \<Rightarrow> Decimal" where
  "Abs d = \<lparr>value = \<bar>value d\<bar>, exp = exp d\<rparr>"

definition Neg :: "Decimal \<Rightarrow> Decimal" where
  "Neg d = \<lparr>value = - value d, exp = exp d\<rparr>"

definition Add :: "Decimal \<Rightarrow> Decimal \<Rightarrow> Decimal" where
  "Add d d2 =
     (let baseScale = min_int32 (exp d) (exp d2);
          rd = rescale d baseScale;
          rd2 = rescale d2 baseScale
      in \<lparr>value = value rd + value rd2, exp = baseScale\<rparr>)"

definition Sub :: "Decimal \<Rightarrow> Decimal \<Rightarrow> Decimal" where
  "Sub d d2 =
     (let baseScale = min_int32 (exp d) (exp d2);
          rd = rescale d baseScale;
          rd2 = rescale d2 baseScale
      in \<lparr>value = value rd - value rd2, exp = baseScale\<rparr>)"

text \<open>\<open>Mul\<close> adds the exponents in \<open>int64\<close> and panics when the sum leaves \<open>int32\<close>.\<close>

definition Mul :: "Decimal \<Rightarrow> Decimal \<Rightarrow> panic + Decimal" where
  "Mul d d2 =
     (let expInt64 = sint (exp d) + sint (exp d2)
      in if expInt64 > MaxInt32 \<or> expInt64 < MinInt32 then Inl ExponentOverflow
         else Inr \<lparr>value = value d * value d2, exp = word_of_int expInt64\<rparr>)"

definition Cmp :: "Decimal \<Rightarrow> Decimal \<Rightarrow> int" where
  "Cmp d d2 =
     (if exp d = exp d2 then big_Cmp (value d) (value d2)
      else let baseExp = min_int32 (exp d) (exp d2);
               (rd, rd2) = (if exp d \<noteq> baseExp then (rescale d baseExp, d2)
                            else if exp d2 \<noteq> baseExp then (d, rescale d2 baseExp)
                            else (\<lparr>value = 0, exp = 0\<rparr>, \<lparr>value = 0, exp = 0\<rparr>))
           in big_Cmp (value rd) (value rd2))"

definition Equal :: "Decimal \<Rightarrow> Decimal \<Rightarrow> bool" where
  "Equal d d2 = (Cmp d d2 = 0)"

definition Truncate :: "Decimal \<Rightarrow> int32 \<Rightarrow> Decimal" where
  "Truncate d precision =
     (if 0 \<le> sint precision \<and> sint (exp d) < sint (- precision) then rescale d (- precision)
      else d)"

section \<open>Division\<close>

text \<open>
  \<open>quoRem\<close> computes \<open>e\<close> as \<open>int64(d.exp - d2.exp - scale)\<close>: the subtractions are done
  in \<open>int32\<close> and wrap, and only the result is widened.
\<close>

definition quoRem :: "Decimal \<Rightarrow> Decimal \<Rightarrow> int32 \<Rightarrow> panic + (Decimal \<times> Decimal)" where
  "quoRem d d2 precision =
     (if big_Sign (value d2) = SignNeutral then Inl DivisionByZero
      else
        let scale = - precision;
            e = sint (exp d - exp d2 - scale)
        in if e > MaxInt32 \<or> e < MinInt32 then Inl QuoRemOverflow
           else
             let (aa, bb, scalerest) =
                   (if e < 0 then (value d, value d2 * big_Exp tenInt (- e), exp d)
                    else (value d * big_Exp tenInt e, value d2, scale + exp d2))
             in if bb = 0 then Inl BigDivisionByZero
                else Inr (\<lparr>value = big_Quo aa bb, exp = scale\<rparr>,
                          \<lparr>value = big_Rem aa bb, exp = scalerest\<rparr>))"

definition divRound :: "Decimal \<Rightarrow> Decimal \<Rightarrow> int32 \<Rightarrow> panic + Decimal" where
  "divRound d d2 precision =
     (case quoRem d d2 precision of
        Inl p \<Rightarrow> Inl p
      | Inr (q, r) \<Rightarrow>
          let rv2 = \<bar>value r\<bar> * 2;
              r2 = \<lparr>value = rv2, exp = exp r + precision\<rparr>;
              c = Cmp r2 (Abs d2)
          in if c < 0 then Inr q
             else if big_Sign (value d) * big_Sign (value d2) < SignNegative
               then Inr (Sub q (buildDecimal 1 (- precision)))
             else Inr (Add q (buildDecimal 1 (- precision))))"

definition Div :: "Decimal \<Rightarrow> Decimal \<Rightarrow> panic + Decimal" where
  "Div d d2 = divRound d d2 divisionPrecision"

definition Mod :: "Decimal \<Rightarrow> Decimal \<Rightarrow> panic + Decimal" where
  "Mod d d2 =
     (case Div d d2 of
        Inl p \<Rightarrow> Inl p
      | Inr dq \<Rightarrow>
          let quo = Truncate dq 0
          in (case Mul d2 quo of
                Inl p \<Rightarrow> Inl p
              | Inr m \<Rightarrow> Inr (Sub d m)))"

section \<open>Rounding\<close>

definition Round :: "Decimal \<Rightarrow> int32 \<Rightarrow> Decimal" where
  "Round d places =
     (let ret = rescale d (- places - 1);
          v1 = (if big_Sign (value ret) = SignNegative then value ret - fiveInt
                else value ret + fiveInt);
          q = big_Div v1 tenInt;
          m = big_Mod v1 tenInt;
          e1 = exp ret + 1
      in \<lparr>value = (if big_Sign q = SignNegative \<and> big_Cmp m zeroInt \<noteq> 0 then q + oneInt else q),
          exp = e1\<rparr>)"

definition RoundUp :: "Decimal \<Rightarrow> int32 \<Rightarrow> Decimal" where
  "RoundUp d precision =
     (if Equal (Round d precision) d then d
      else Round (Add d (buildDecimal 5 (- precision - 1))) precision)"

definition RoundDown :: "Decimal \<Rightarrow> int32 \<Rightarrow> Decimal" where
  "RoundDown d precision =
     (if Equal (Round d precision) d then d
      else Round (Add d (buildDecimal (- 5) (- precision - 1))) precision)"

definition RoundNearest :: "Decimal \<Rightarrow> Decimal \<Rightarrow> panic + Decimal" where
  "RoundNearest d unit0 =
     (let rounded = Round d (- exp unit0)
      in case Mod rounded unit0 of
           Inl p \<Rightarrow> Inl p
         | Inr remainder \<Rightarrow>
             let (cmp, unit1) = (if big_Sign (value rounded) = SignNegative then (- 1, Neg unit0)
                                 else (1, unit0))
             in (case Div unit1 (buildDecimal 2 0) of
                   Inl p \<Rightarrow> Inl p
                 | Inr half \<Rightarrow>
                     if Cmp remainder half = cmp then Inr (Add rounded (Sub unit1 remainder))
                     else Inr (Sub rounded remainder)))"

definition Floor :: "Decimal \<Rightarrow> Decimal" where
  "Floor d =
     (let ex = big_Exp 10 (- sint (exp d))
      in \<lparr>value = big_Div (value d) ex, exp = 0\<rparr>)"

definition Ceil :: "Decimal \<Rightarrow> Decimal" where
  "Ceil d =
     (let ex = big_Exp 10 (- sint (exp d));
          z = big_Div (value d) ex;
          m = big_Mod (value d) ex
      in \<lparr>value = (if big_Cmp m zeroInt \<noteq> 0 then z + oneInt else z), exp = 0\<rparr>)"

section \<open>Rounding to a unit (money.go)\<close>

text \<open>
  \<open>RoundingMode\<close> is a string type with three named values; any other string takes the
  final \<open>return Decimal{}\<close>. The package function \<open>Round\<close> is \<open>money_Round\<close> here, the
  method of \<open>Decimal\<close> having taken the name.
\<close>

datatype RoundingMode = Mode_RoundDown | Mode_RoundUp | Mode_RoundToNearest | Mode_other

definition money_Round :: "Decimal \<Rightarrow> Decimal \<Rightarrow> RoundingMode \<Rightarrow> panic + Decimal" where
  "money_Round x unit0 mode =
     (let prec = exp unit0 * (- 1)
      in case mode of
           Mode_RoundDown \<Rightarrow>
             (let rounded = RoundDown x prec
              in case Mod rounded unit0 of
                   Inl p \<Rightarrow> Inl p
                 | Inr m \<Rightarrow> Inr (Truncate (Sub rounded m) prec))
         | Mode_RoundUp \<Rightarrow>
             (let rounded = RoundUp x prec
              in case Mod rounded unit0 of
                   Inl p \<Rightarrow> Inl p
                 | Inr m \<Rightarrow> Inr (Truncate (Add rounded m) prec))
         | Mode_RoundToNearest \<Rightarrow>
             (case RoundNearest x unit0 of
                Inl p \<Rightarrow> Inl p
              | Inr r \<Rightarrow> Inr (Truncate r prec))
         | Mode_other \<Rightarrow> Inr \<lparr>value = 0, exp = 0\<rparr>)"

section \<open>Text: parsing and rendering\<close>

text \<open>
  A Go string is a sequence of bytes, a \<open>string\<close> here. \<open>ParseDecimal\<close> ranges over the
  runes of the text; a rune outside ASCII is either refused by the format loop or, when
  it is a Unicode digit, left in \<open>ints\<close> and refused by \<open>SetString\<close>, with the same error
  both times, so the loop of the model refuses every byte that is not an ASCII digit
  or one of \<open>allowedDecimalRunes\<close>. On failure the Go function returns the decimal
  \<open>zero\<close> beside the error; the model returns the error alone.
\<close>

datatype error = ErrInvalidDecimal | ErrGobVersion

definition decSeparator :: string where
  "decSeparator = ''.''"

definition allowedDecimalRunes :: "char list" where
  "allowedDecimalRunes = [CHR ''+'', CHR ''-'', CHR ''.'']"

definition IsDigit :: "char \<Rightarrow> bool" where
  "IsDigit c = (c \<in> set ''0123456789'')"

fun check_format :: "string \<Rightarrow> bool" where
  "check_format [] = True"
| "check_format (c # cs) =
     (if IsDigit c then check_format cs
      else if c \<in> set allowedDecimalRunes then check_format cs
      else False)"

text \<open>\<open>strings.Split(value, ".")\<close>: the pieces between the separators, one more than
  there are separators.\<close>

fun Split :: "string \<Rightarrow> string list" where
  "Split [] = [[]]"
| "Split (c # cs) =
     (if [c] = decSeparator then [] # Split cs
      else (case Split cs of p # ps \<Rightarrow> (c # p) # ps | [] \<Rightarrow> [[c]]))"

text \<open>
  \<open>big.Int.SetString(s, 10)\<close>: an optional sign, then one or more decimal digits and
  nothing else. \<open>big.Int.String()\<close>: the decimal digits, most significant first, after
  a \<open>-\<close> for a negative number.
\<close>

definition digit_value :: "char \<Rightarrow> nat" where
  "digit_value c = of_char c - 48"

definition digit_char :: "nat \<Rightarrow> char" where
  "digit_char n = ''0123456789'' ! n"

definition nat_of_digits :: "string \<Rightarrow> nat" where
  "nat_of_digits ds = foldl (\<lambda>a c. a * 10 + digit_value c) 0 ds"

definition big_SetString :: "string \<Rightarrow> int option" where
  "big_SetString s =
     (let (neg, ds) = (case s of
                         [] \<Rightarrow> (False, [])
                       | c # cs \<Rightarrow> if c = CHR ''-'' then (True, cs)
                                  else if c = CHR ''+'' then (False, cs)
                                  else (False, s))
      in if ds = [] \<or> \<not> list_all IsDigit ds then None
         else Some (if neg then - int (nat_of_digits ds) else int (nat_of_digits ds)))"

function nat_String :: "nat \<Rightarrow> string" where
  "nat_String n = (if n < 10 then [digit_char n]
                   else nat_String (n div 10) @ [digit_char (n mod 10)])"
  by pat_completeness auto
termination
  by (relation "measure id") auto

declare nat_String.simps [simp del]

definition big_String :: "int \<Rightarrow> string" where
  "big_String x = (if x < 0 then CHR ''-'' # nat_String (nat (- x)) else nat_String (nat x))"

definition ParseDecimal :: "string \<Rightarrow> error + Decimal" where
  "ParseDecimal text =
     (if \<not> check_format text then Inl ErrInvalidDecimal
      else
        case (case Split text of
                [p0] \<Rightarrow> Some (p0, 0)
              | [p0, p1] \<Rightarrow> Some (p0 @ p1, - int (length p1))
              | _ \<Rightarrow> None) of
          None \<Rightarrow> Inl ErrInvalidDecimal
        | Some (ints, ex) \<Rightarrow>
            (case big_SetString ints of
               None \<Rightarrow> Inl ErrInvalidDecimal
             | Some dValue \<Rightarrow>
                 if ex < MinInt32 \<or> ex > MaxInt32 then Inl ErrInvalidDecimal
                 else Inr \<lparr>value = dValue, exp = word_of_int ex\<rparr>))"

text \<open>\<open>roundPrec\<close> multiplies in \<open>int32\<close> and converts to a 64-bit \<open>uint\<close>.\<close>

definition roundPrec :: "Decimal \<Rightarrow> nat" where
  "roundPrec d = (if sint (exp d) < 0 then nat (sint (exp d * (- 1)) mod 2 ^ 64) else 0)"

definition String :: "Decimal \<Rightarrow> string" where
  "String d =
     (if 0 \<le> sint (exp d) then
        let v = value (rescale d 0);
            intPart = big_String v;
            prec = (if roundPrec d > 0 then roundPrec d else 1)
        in intPart @ decSeparator @ replicate prec (CHR ''0'')
      else
        let str = big_String \<bar>value d\<bar>;
            dExpInt = sint (exp d);
            (intPart, fractionalPart) =
              (if int (length str) > - dExpInt
               then (take (nat (int (length str) + dExpInt)) str,
                     drop (nat (int (length str) + dExpInt)) str)
               else (''0'', replicate (nat (- dExpInt - int (length str))) (CHR ''0'') @ str));
            number = intPart @ (if length fractionalPart > 0 then decSeparator @ fractionalPart
                                else [])
        in if big_Sign (value d) = SignNegative then CHR ''-'' # number else number)"

section \<open>Binary form\<close>

text \<open>
  \<open>binary.BigEndian.PutUint32\<close> and \<open>Uint32\<close> on four bytes. The conversions between
  \<open>int32\<close> and \<open>uint32\<close> keep the bits, so the exponent stays a \<open>32 word\<close>.
\<close>

type_synonym byte = "8 word"

definition PutUint32 :: "32 word \<Rightarrow> byte list" where
  "PutUint32 v = [ucast (drop_bit 24 v), ucast (drop_bit 16 v), ucast (drop_bit 8 v), ucast v]"

definition Uint32 :: "byte list \<Rightarrow> 32 word" where
  "Uint32 b = ucast (b ! 3) OR push_bit 8 (ucast (b ! 2)) OR push_bit 16 (ucast (b ! 1))
              OR push_bit 24 (ucast (b ! 0))"

text \<open>
  \<open>GobEncode\<close> and \<open>GobDecode\<close> of \<open>big.Int\<close> belong to the Go standard library, like
  the arithmetic above. Their format: one byte holding the codec version 1 shifted left
  by one with the sign in the lowest bit, then the magnitude in big-endian bytes without
  leading zero bytes. Decoding an empty buffer gives 0, and a first byte of another
  version is an error that leaves the receiver as it was.
\<close>

definition intGobVersion :: byte where
  "intGobVersion = 1"

function nat_bytes :: "nat \<Rightarrow> byte list" where
  "nat_bytes n = (if n = 0 then [] else nat_bytes (n div 256) @ [of_nat (n mod 256)])"
  by pat_completeness auto
termination
  by (relation "measure id") auto

declare nat_bytes.simps [simp del]

definition nat_setBytes :: "byte list \<Rightarrow> nat" where
  "nat_setBytes buf = foldl (\<lambda>a b. a * 256 + unat b) 0 buf"

definition big_GobEncode :: "int \<Rightarrow> error + byte list" where
  "big_GobEncode x =
     (let b = push_bit 1 intGobVersion
      in Inr ((if x < 0 then b OR 1 else b) # nat_bytes (nat \<bar>x\<bar>)))"

definition big_GobDecode :: "int \<Rightarrow> byte list \<Rightarrow> int \<times> error option" where
  "big_GobDecode z buf =
     (case buf of
        [] \<Rightarrow> (0, None)
      | b # rest \<Rightarrow>
          if drop_bit 1 b \<noteq> intGobVersion then (z, Some ErrGobVersion)
          else (if b AND 1 \<noteq> 0 then - int (nat_setBytes rest) else int (nat_setBytes rest), None))"

text \<open>
  \<open>UnmarshalBinary\<close> writes into its receiver: the result is the receiver after the call
  and the error returned. \<open>data[:4]\<close> panics when the slice is shorter than four bytes
  (its capacity taken to be its length).
\<close>

definition UnmarshalBinary :: "Decimal \<Rightarrow> byte list \<Rightarrow> panic + (Decimal \<times> error option)" where
  "UnmarshalBinary d data =
     (if length data < 4 then Inl SliceBoundsOutOfRange
      else
        let e = Uint32 (take 4 data);
            (v, err) = big_GobDecode 0 (drop 4 data)
        in Inr (\<lparr>value = v, exp = e\<rparr>, err))"

definition MarshalBinary :: "Decimal \<Rightarrow> byte list \<times> error option" where
  "MarshalBinary d =
     (let v1 = PutUint32 (exp d)
      in case big_GobEncode (value d) of
           Inl err \<Rightarrow> ([], Some err)
         | Inr v2 \<Rightarrow> (v1 @ v2, None))"

section \<open>Multiplication and the exponent range\<close>

lemma sint32_add_in_range:
  "\<not> MaxInt32 < sint (a::int32) + sint b \<Longrightarrow> \<not> sint a + sint b < MinInt32
   \<Longrightarrow> sint (a + b) = sint a + sint b"
  by (simp add: sint_word_ariths signed_take_bit_int_eq_self_iff)

text \<open>
  C7. \<open>Mul\<close> panics exactly when the sum of the two exponents, taken without
  wrap-around, lies outside the signed 32-bit range; otherwise it returns the decimal
  whose coefficient is the product of the coefficients and whose exponent is that sum.
\<close>

theorem Mul_product_or_overflow:
  "(Mul d d2 = Inl ExponentOverflow \<longleftrightarrow>
      sint (exp d) + sint (exp d2) > MaxInt32 \<or> sint (exp d) + sint (exp d2) < MinInt32)
   \<and> (\<not> (sint (exp d) + sint (exp d2) > MaxInt32 \<or> sint (exp d) + sint (exp d2) < MinInt32) \<longrightarrow>
        (\<exists>r. Mul d d2 = Inr r \<and> value r = value d * value d2
              \<and> sint (exp r) = sint (exp d) + sint (exp d2)))"
  by (simp add: Mul_def Let_def sint32_add_in_range)

theorem Mul_product_or_overflow_witness:
  "Mul \<lparr>value = 12, exp = - 2\<rparr> \<lparr>value = - 3, exp = - 1\<rparr> = Inr \<lparr>value = - 36, exp = - 3\<rparr>
   \<and> Mul \<lparr>value = 1, exp = 2147483647\<rparr> \<lparr>value = 1, exp = 1\<rparr> = Inl ExponentOverflow"
  using Mul_product_or_overflow [of "\<lparr>value = 12, exp = - 2\<rparr>" "\<lparr>value = - 3, exp = - 1\<rparr>"]
    Mul_product_or_overflow [of "\<lparr>value = 1, exp = 2147483647\<rparr>" "\<lparr>value = 1, exp = 1\<rparr>"]
  by (simp add: Mul_def)

section \<open>Division aborts exactly on a zero divisor\<close>

lemma sint32_bounds: "- 2147483648 \<le> sint (w::int32)" "sint (w::int32) \<le> 2147483647"
  using sint_ge [of w] sint_lt [of w] by simp_all

lemma big_Sign_eq_0_iff [simp]: "big_Sign x = 0 \<longleftrightarrow> x = 0"
  by (simp add: big_Sign_def)

lemma big_Exp_ten_pos: "0 < big_Exp 10 n"
  by (simp add: big_Exp_def)

lemma quoRem_total:
  "value d2 \<noteq> 0 \<Longrightarrow> \<exists>q r. quoRem d d2 p = Inr (q, r) \<and> exp q = - p"
  using sint32_bounds [of "exp d - exp d2 - - p"] big_Exp_ten_pos [of "- sint (exp d - exp d2 + p)"]
  by (auto simp: quoRem_def Let_def)

lemma quoRem_zero: "value d2 = 0 \<Longrightarrow> quoRem d d2 p = Inl DivisionByZero"
  by (simp add: quoRem_def)

lemma Add_exp_same: "exp a = exp b \<Longrightarrow> exp (Add a b) = exp a"
  by (simp add: Add_def Let_def min_int32_def)

lemma Sub_exp_same: "exp a = exp b \<Longrightarrow> exp (Sub a b) = exp a"
  by (simp add: Sub_def Let_def min_int32_def)

lemma divRound_total:
  assumes "value d2 \<noteq> 0"
  shows "\<exists>q. divRound d d2 p = Inr q \<and> exp q = - p"
proof -
  from quoRem_total [OF assms, of d p] obtain q r where qr: "quoRem d d2 p = Inr (q, r)" "exp q = - p"
    by blast
  then show ?thesis
    by (simp add: divRound_def Let_def Add_exp_same Sub_exp_same buildDecimal_def)
qed

lemma Div_total: "value d2 \<noteq> 0 \<Longrightarrow> \<exists>q. Div d d2 = Inr q \<and> exp q = - 16"
  using divRound_total [of d2 d divisionPrecision] by (simp add: Div_def divisionPrecision_def)

lemma Div_zero: "value d2 = 0 \<Longrightarrow> Div d d2 = Inl DivisionByZero"
  by (simp add: Div_def divRound_def quoRem_zero)

lemma Truncate_0_exp: "exp q = - 16 \<Longrightarrow> exp (Truncate q 0) = 0"
  by (simp add: Truncate_def rescale_def Let_def)

lemma Mul_exp_0_total: "exp q = 0 \<Longrightarrow> \<exists>m. Mul d2 q = Inr m"
  using sint32_bounds [of "exp d2"] by (simp add: Mul_def Let_def)

lemma Mod_total:
  assumes "value d2 \<noteq> 0"
  shows "\<exists>m. Mod d d2 = Inr m"
proof -
  from Div_total [OF assms, of d] obtain q where q: "Div d d2 = Inr q" "exp q = - 16"
    by blast
  from Mul_exp_0_total [OF Truncate_0_exp [OF q(2)], of d2] obtain m where "Mul d2 (Truncate q 0) = Inr m"
    by blast
  with q show ?thesis
    by (simp add: Mod_def Let_def)
qed

lemma Mod_zero: "value d2 = 0 \<Longrightarrow> Mod d d2 = Inl DivisionByZero"
  by (simp add: Mod_def Div_zero)

text \<open>
  C8. Division aborts if and only if the divisor is numerically zero: when the
  coefficient of \<open>d2\<close> is zero (whatever its exponent) \<open>Div\<close> and \<open>Mod\<close> panic with the
  division-by-zero panic, and for every other \<open>d2\<close> both return a decimal. The overflow
  panic of \<open>quoRem\<close> cannot fire, since \<open>e\<close> is widened from an \<open>int32\<close>, and the
  multiplication inside \<open>Mod\<close> has a factor of exponent 0.
\<close>

theorem Div_Mod_panic_iff_zero_divisor:
  "(Div d d2 = Inl DivisionByZero) = (value d2 = 0)
   \<and> (\<exists>p. Div d d2 = Inl p) = (value d2 = 0)
   \<and> (\<exists>q. Div d d2 = Inr q) = (value d2 \<noteq> 0)
   \<and> (Mod d d2 = Inl DivisionByZero) = (value d2 = 0)
   \<and> (\<exists>p. Mod d d2 = Inl p) = (value d2 = 0)
   \<and> (\<exists>m. Mod d d2 = Inr m) = (value d2 \<noteq> 0)"
proof (cases "value d2 = 0")
  case True
  then show ?thesis by (simp add: Div_zero Mod_zero)
next
  case False
  from Div_total [OF False, of d] obtain q where "Div d d2 = Inr q" by blast
  moreover from Mod_total [OF False, of d] obtain m where "Mod d d2 = Inr m" by blast
  ultimately show ?thesis using False by simp
qed

theorem Div_Mod_panic_iff_zero_divisor_witness:
  "Div \<lparr>value = 7, exp = 0\<rparr> \<lparr>value = 0, exp = - 3\<rparr> = Inl DivisionByZero
   \<and> Mod \<lparr>value = 7, exp = 0\<rparr> \<lparr>value = 0, exp = - 3\<rparr> = Inl DivisionByZero
   \<and> (\<exists>q. Div \<lparr>value = 1, exp = 2147483647\<rparr> \<lparr>value = 1, exp = - 2147483648\<rparr> = Inr q)
   \<and> (\<exists>m. Mod \<lparr>value = 1, exp = 2147483647\<rparr> \<lparr>value = 1, exp = - 2147483648\<rparr> = Inr m)"
  using Div_Mod_panic_iff_zero_divisor [of "\<lparr>value = 7, exp = 0\<rparr>" "\<lparr>value = 0, exp = - 3\<rparr>"]
    Div_Mod_panic_iff_zero_divisor [of "\<lparr>value = 1, exp = 2147483647\<rparr>" "\<lparr>value = 1, exp = - 2147483648\<rparr>"]
  by simp

section \<open>Division rounds half away from zero only when the quotient is not negative\<close>

lemma divRound_Sub_branch_dead: "\<not> big_Sign a * big_Sign b < SignNegative"
  by (simp add: big_Sign_def)

lemma Div_100_by_108:
  "Div \<lparr>value = 1000, exp = - 1\<rparr> \<lparr>value = 108, exp = - 2\<rparr>
   = Inr \<lparr>value = 925925925925925926, exp = - 16\<rparr>"
  by (simp add: Div_def divRound_def quoRem_def divisionPrecision_def Let_def big_Sign_def
      big_Exp_def big_Quo_def big_Rem_def Cmp_def Abs_def big_Cmp_def Add_def Sub_def
      buildDecimal_def min_int32_def rescale_def)

text \<open>
  C1. \<open>Div\<close> at 16 fractional digits is meant to bump the truncated quotient one unit
  in the last place away from zero when twice the remainder reaches the divisor. The
  product of the two signs is compared with \<open>SignNegative\<close> (\<open>- 1\<close>) instead of 0, so the
  subtracting branch is never taken: \<open>- 2 / 3\<close> is truncated to \<open>- 0.6666666666666666\<close> and
  then bumped towards zero, to \<open>- 0.6666666666666665\<close>, where \<open>2 / 3\<close> gives
  \<open>0.6666666666666667\<close>.
\<close>

theorem Div_negative_quotient_rounds_toward_zero:
  "Div \<lparr>value = - 2, exp = 0\<rparr> \<lparr>value = 3, exp = 0\<rparr>
     = Inr \<lparr>value = - 6666666666666665, exp = - 16\<rparr>
   \<and> Div \<lparr>value = 2, exp = 0\<rparr> \<lparr>value = 3, exp = 0\<rparr>
     = Inr \<lparr>value = 6666666666666667, exp = - 16\<rparr>"
  by (simp add: Div_def divRound_def quoRem_def divisionPrecision_def Let_def big_Sign_def
      big_Exp_def big_Quo_def big_Rem_def Cmp_def Abs_def big_Cmp_def Add_def Sub_def
      buildDecimal_def min_int32_def rescale_def)

section \<open>Ceil\<close>

text \<open>
  With an exponent that is not positive, \<open>Ceil\<close> is the ceiling for every sign of the
  coefficient: the Euclidean \<open>DivMod\<close> by a positive power of ten is the floor, and one is
  added exactly when the modulus is not zero.
\<close>

lemma Ceil_correct_nonpositive_exponent:
  assumes "sint (exp d) \<le> 0"
  shows "exp (Ceil d) = 0
    \<and> value d \<le> value (Ceil d) * 10 ^ nat (- sint (exp d))
    \<and> (value (Ceil d) - 1) * 10 ^ nat (- sint (exp d)) < value d"
proof -
  define n where "n = nat (- sint (exp d))"
  define b :: int where "b = 10 ^ n"
  have b: "0 < b" by (simp add: b_def)
  have ex: "big_Exp 10 (- sint (exp d)) = b"
    using assms by (auto simp: big_Exp_def b_def n_def)
  define q where "q = value d div b"
  define m where "m = value d mod b"
  have dm: "value d = q * b + m" by (simp add: q_def m_def)
  have m: "0 \<le> m" "m < b" using b by (simp_all add: m_def)
  have c: "value (Ceil d) = (if m \<noteq> 0 then q + 1 else q)" "exp (Ceil d) = 0"
    using b by (simp_all add: Ceil_def Let_def ex big_Div_def big_Mod_def big_Cmp_def
        big_Sign_def q_def m_def)
  have "(q + 1) * b = q * b + b" "(q - 1) * b = q * b - b" by (simp_all add: algebra_simps)
  then show ?thesis
    unfolding c n_def [symmetric] b_def [symmetric] using dm m b by auto
qed

text \<open>
  C3. \<open>Ceil\<close> is documented as the nearest integer value greater than or equal to the
  decimal. For a positive exponent \<open>Exp\<close> is given a negative power and returns 1, so the
  coefficient is returned unscaled: \<open>30\<close> rounded to tens is \<open>3 * 10 ^ 1\<close>, and its \<open>Ceil\<close>
  is 3, which compares below it.
\<close>

theorem Ceil_positive_exponent_below_input:
  "Round \<lparr>value = 30, exp = 0\<rparr> (- 1) = \<lparr>value = 3, exp = 1\<rparr>
   \<and> Ceil \<lparr>value = 3, exp = 1\<rparr> = \<lparr>value = 3, exp = 0\<rparr>
   \<and> Cmp (Ceil \<lparr>value = 3, exp = 1\<rparr>) \<lparr>value = 3, exp = 1\<rparr> = - 1"
  by (simp add: Ceil_def Round_def Cmp_def Let_def big_Sign_def
      big_Exp_def big_Quo_def big_Div_def big_Mod_def big_Cmp_def min_int32_def rescale_def)

section \<open>Rounding to a number of places\<close>

lemma sint32_pred: "sint (w::int32) \<noteq> - 2147483648 \<Longrightarrow> sint (w - 1) = sint w - 1"
  using sint32_bounds [of w]
  by (simp add: sint_word_ariths signed_take_bit_int_eq_self_iff)

lemma sint32_neg: "sint (p::int32) \<noteq> - 2147483648 \<Longrightarrow> sint (- p) = - sint p"
  using sint32_bounds [of p]
  by (simp add: sint_word_ariths signed_take_bit_int_eq_self_iff)

lemma big_Sign_neg_iff: "big_Sign x = - 1 \<longleftrightarrow> x < 0"
  by (simp add: big_Sign_def)

lemma big_Div_10: "big_Div x 10 = x div 10"
  by (simp add: big_Div_def big_Sign_def)

lemma big_Mod_10: "big_Mod x 10 = x mod 10"
  by (simp add: big_Mod_def)

lemma big_Cmp_0: "big_Cmp m 0 \<noteq> 0 \<longleftrightarrow> m \<noteq> 0"
  by (simp add: big_Cmp_def)

lemma Round_exp: "exp (Round d p) = - p"
  by (simp add: Round_def Let_def rescale_def)

lemma rescale_one_finer:
  assumes "sint e = sint (exp d) - 1"
  shows "rescale d e = \<lparr>value = value d * 10, exp = e\<rparr>"
  using assms by (simp add: rescale_def Let_def big_Exp_def)

lemma Round_after_rescale:
  "rescale d (- p - 1) = ret \<Longrightarrow>
   Round d p = \<lparr>value = (let v1 = (if value ret < 0 then value ret - 5 else value ret + 5)
                         in if v1 div 10 < 0 \<and> v1 mod 10 \<noteq> 0 then v1 div 10 + 1 else v1 div 10),
               exp = exp ret + 1\<rparr>"
  unfolding Round_def Let_def big_Sign_neg_iff big_Div_10 big_Mod_10 big_Cmp_0
  by (simp only:)

lemma Round_fixes_decimal_of_its_precision:
  assumes "exp r = - p" and "sint p \<noteq> MinInt32"
  shows "Round r p = r"
proof -
  have "sint (- p) \<noteq> - 2147483648"
    using sint32_neg [OF assms(2)] sint32_bounds [of p] by simp
  then have "sint (- p - 1) = sint (exp r) - 1"
    using sint32_pred [of "- p"] assms(1) by simp
  then have ret: "rescale r (- p - 1) = \<lparr>value = value r * 10, exp = - p - 1\<rparr>"
    by (rule rescale_one_finer)
  show ?thesis
  proof (cases "value r < 0")
    case True
    have "value r * 10 - 5 = 5 + (value r - 1) * 10" by simp
    then have "(value r * 10 - 5) div 10 = value r - 1" "(value r * 10 - 5) mod 10 = 5"
      by (simp_all only: div_mult_self1 mod_mult_self1) simp_all
    with True show ?thesis
      unfolding Round_after_rescale [OF ret] using assms(1) by (simp add: Let_def)
  next
    case False
    have "(value r * 10 + 5) div 10 = value r" "(value r * 10 + 5) mod 10 = 5"
      by simp_all
    with False show ?thesis
      unfolding Round_after_rescale [OF ret] using assms(1) by (simp add: Let_def)
  qed
qed

text \<open>
  At \<open>places = MinInt32\<close> the negation wraps: \<open>- places - 1\<close> is \<open>MaxInt32\<close> and the
  incremented exponent wraps back to \<open>MinInt32\<close>, so a second \<open>Round\<close> rescales the result
  across the whole exponent range and loses it.
\<close>

theorem Round_idempotent_counterexample:
  "Round (Round \<lparr>value = 5, exp = 2147483647\<rparr> (- 2147483648)) (- 2147483648)
   \<noteq> Round \<lparr>value = 5, exp = 2147483647\<rparr> (- 2147483648)"
proof -
  have r1: "Round \<lparr>value = 5, exp = 2147483647\<rparr> (- 2147483648)
            = \<lparr>value = 1, exp = - 2147483648\<rparr>"
    by (simp add: Round_def rescale_def Let_def big_Sign_def big_Div_def big_Mod_def big_Cmp_def)
  have "(1::int) < 10 ^ n" if "0 < n" for n :: nat
    using that by (metis one_less_numeral_iff one_less_power semiring_norm(76))
  then have q: "big_Quo 1 (big_Exp 10 k) = 0" if "0 < k" for k
    using that by (simp add: big_Quo_def big_Exp_def big_Sign_def)
  have "rescale \<lparr>value = 1, exp = - 2147483648\<rparr> (- (- 2147483648) - 1)
        = \<lparr>value = 0, exp = 2147483647\<rparr>"
    unfolding rescale_def Let_def by (simp add: q del: power_numeral)
  from Round_after_rescale [OF this]
  have r2: "Round \<lparr>value = 1, exp = - 2147483648\<rparr> (- 2147483648)
            = \<lparr>value = 0, exp = - 2147483648\<rparr>"
    by simp
  show ?thesis
    unfolding r1 r2 by simp
qed

text \<open>
  C6 (amended). Rounding to a number of places is idempotent for every decimal \<open>x\<close>
  and every \<open>int32\<close> number of places \<open>p\<close> other than the least one, \<open>MinInt32\<close>:
  \<open>Round (Round x p) p = Round x p\<close>.
\<close>

theorem Round_idempotent:
  assumes "sint p \<noteq> MinInt32"
  shows "Round (Round x p) p = Round x p"
  using Round_fixes_decimal_of_its_precision [OF Round_exp assms] .

theorem Round_idempotent_witness:
  "sint (2 :: int32) \<noteq> MinInt32
   \<and> Round \<lparr>value = 11115, exp = - 5\<rparr> 2 = \<lparr>value = 11, exp = - 2\<rparr>
   \<and> Round (Round \<lparr>value = 11115, exp = - 5\<rparr> 2) 2 = Round \<lparr>value = 11115, exp = - 5\<rparr> 2"
proof -
  have h: "sint (2 :: int32) \<noteq> MinInt32" by simp
  have "Round \<lparr>value = 11115, exp = - 5\<rparr> 2 = \<lparr>value = 11, exp = - 2\<rparr>"
    by (simp add: Round_def rescale_def Let_def big_Sign_def big_Div_def big_Mod_def big_Cmp_def
        big_Quo_def big_Exp_def)
  then show ?thesis using h Round_idempotent [OF h, of "\<lparr>value = 11115, exp = - 5\<rparr>"] by simp
qed

section \<open>The binary form round-trips\<close>

lemma Uint32_PutUint32: "Uint32 (PutUint32 v) = v"
proof (rule bit_word_eqI)
  fix n assume n: "n < LENGTH(32)"
  then consider "n < 8" | "8 \<le> n" "n < 16" | "16 \<le> n" "n < 24" | "24 \<le> n" "n < 32"
    by fastforce
  then show "bit (Uint32 (PutUint32 v)) n = bit v n"
    by cases (auto simp: Uint32_def PutUint32_def bit_simps)
qed

lemma nat_setBytes_snoc: "nat_setBytes (bs @ [b]) = nat_setBytes bs * 256 + unat b"
  by (simp add: nat_setBytes_def)

lemma nat_setBytes_nat_bytes: "nat_setBytes (nat_bytes n) = n"
proof (induction n rule: nat_bytes.induct)
  case (1 n)
  show ?case
  proof (cases "n = 0")
    case True
    then show ?thesis by (simp add: nat_setBytes_def nat_bytes.simps)
  next
    case False
    have "unat (of_nat (n mod 256) :: byte) = n mod 256"
      by (simp add: unat_of_nat)
    with False 1 show ?thesis
      by (subst nat_bytes.simps) (simp add: nat_setBytes_snoc)
  qed
qed

lemma big_GobDecode_GobEncode:
  "big_GobEncode x = Inr buf \<Longrightarrow> big_GobDecode z buf = (x, None)"
  by (auto simp: big_GobEncode_def big_GobDecode_def intGobVersion_def nat_setBytes_nat_bytes
      Let_def)

text \<open>
  C10. The binary encoding round-trips exactly: for every decimal \<open>d\<close>, \<open>MarshalBinary\<close>
  returns, without error, the four big-endian bytes of the exponent followed by the
  encoded coefficient, and \<open>UnmarshalBinary\<close> of these bytes, into any receiver, succeeds
  and leaves the receiver with the same coefficient and the same exponent as \<open>d\<close>.
\<close>

theorem binary_round_trip:
  "\<exists>v2. big_GobEncode (value d) = Inr v2
     \<and> MarshalBinary d = (PutUint32 (exp d) @ v2, None)
     \<and> UnmarshalBinary d0 (fst (MarshalBinary d)) = Inr (d, None)"
proof -
  obtain v2 where v2: "big_GobEncode (value d) = Inr v2"
    by (simp add: big_GobEncode_def Let_def)
  have m: "MarshalBinary d = (PutUint32 (exp d) @ v2, None)"
    by (simp add: MarshalBinary_def Let_def v2)
  have l: "length (PutUint32 (exp d)) = 4"
    by (simp add: PutUint32_def)
  have "UnmarshalBinary d0 (PutUint32 (exp d) @ v2) = Inr (d, None)"
    by (simp add: UnmarshalBinary_def Let_def l Uint32_PutUint32 big_GobDecode_GobEncode [OF v2])
  with v2 m show ?thesis by simp
qed

theorem binary_round_trip_witness:
  "MarshalBinary \<lparr>value = - 258, exp = - 2\<rparr> = ([255, 255, 255, 254, 3, 1, 2], None)
   \<and> UnmarshalBinary \<lparr>value = 0, exp = 0\<rparr> [255, 255, 255, 254, 3, 1, 2]
       = Inr (\<lparr>value = - 258, exp = - 2\<rparr>, None)"
proof -
  have b: "nat_bytes 258 = [1, 2]"
    by (simp add: nat_bytes.simps)
  have m: "MarshalBinary \<lparr>value = - 258, exp = - 2\<rparr> = ([255, 255, 255, 254, 3, 1, 2], None)"
    by (simp add: MarshalBinary_def big_GobEncode_def PutUint32_def intGobVersion_def b)
  with binary_round_trip [of "\<lparr>value = - 258, exp = - 2\<rparr>" "\<lparr>value = 0, exp = 0\<rparr>"]
  show ?thesis by auto
qed

section \<open>Decimal text: digits and their values\<close>

lemma IsDigit_cases:
  "IsDigit c \<longleftrightarrow> c = CHR ''0'' \<or> c = CHR ''1'' \<or> c = CHR ''2'' \<or> c = CHR ''3'' \<or> c = CHR ''4''
     \<or> c = CHR ''5'' \<or> c = CHR ''6'' \<or> c = CHR ''7'' \<or> c = CHR ''8'' \<or> c = CHR ''9''"
  by (auto simp: IsDigit_def)

lemma digit_value_less: "IsDigit c \<Longrightarrow> digit_value c < 10"
  by (auto simp: IsDigit_cases digit_value_def)

lemma digit_char_value: "IsDigit c \<Longrightarrow> digit_char (digit_value c) = c"
  by (auto simp: IsDigit_cases digit_value_def digit_char_def)

lemma digit_value_zero_iff: "IsDigit c \<Longrightarrow> digit_value c = 0 \<longleftrightarrow> c = CHR ''0''"
  by (auto simp: IsDigit_cases digit_value_def)

lemma digit_value_pos: "IsDigit c \<Longrightarrow> c \<noteq> CHR ''0'' \<Longrightarrow> 0 < digit_value c"
  by (auto simp: IsDigit_cases digit_value_def)

lemma nat_of_digits_Nil: "nat_of_digits [] = 0"
  by (simp add: nat_of_digits_def)

lemma nat_of_digits_snoc: "nat_of_digits (ds @ [c]) = nat_of_digits ds * 10 + digit_value c"
  by (simp add: nat_of_digits_def)

lemma nat_String_small: "n < 10 \<Longrightarrow> nat_String n = [digit_char n]"
  by (subst nat_String.simps) simp

lemma nat_String_large:
  "10 \<le> n \<Longrightarrow> nat_String n = nat_String (n div 10) @ [digit_char (n mod 10)]"
  by (subst nat_String.simps) simp

lemma nat_String_of_digits:
  "list_all IsDigit ds \<Longrightarrow> ds \<noteq> [] \<Longrightarrow> hd ds \<noteq> CHR ''0'' \<Longrightarrow>
     0 < nat_of_digits ds \<and> nat_String (nat_of_digits ds) = ds"
proof (induction ds rule: rev_induct)
  case Nil
  then show ?case by simp
next
  case (snoc c ds)
  have c: "IsDigit c" using snoc.prems(1) by simp
  have d: "digit_value c < 10" using c by (rule digit_value_less)
  show ?case
  proof (cases "ds = []")
    case True
    have "c \<noteq> CHR ''0''" using snoc.prems(3) True by simp
    then have "0 < digit_value c" using c by (simp add: digit_value_pos)
    then show ?thesis
      using True c d
      by (simp add: nat_of_digits_def nat_String_small digit_char_value)
  next
    case False
    with snoc have ih: "0 < nat_of_digits ds" "nat_String (nat_of_digits ds) = ds"
      by simp_all
    have "10 \<le> nat_of_digits ds * 10 + digit_value c" using ih(1) by simp
    moreover have "(nat_of_digits ds * 10 + digit_value c) div 10 = nat_of_digits ds"
      using d by simp
    moreover have "(nat_of_digits ds * 10 + digit_value c) mod 10 = digit_value c"
      using d by simp
    ultimately show ?thesis
      using ih c by (simp add: nat_of_digits_snoc nat_String_large digit_char_value)
  qed
qed

lemma nat_of_digits_zeros: "nat_of_digits (replicate k (CHR ''0'') @ ds) = nat_of_digits ds"
  by (induction k) (simp_all add: nat_of_digits_def digit_value_def)

lemma nat_of_digits_pos:
  "list_all IsDigit ds \<Longrightarrow> \<exists>c\<in>set ds. c \<noteq> CHR ''0'' \<Longrightarrow> 0 < nat_of_digits ds"
proof (induction ds rule: rev_induct)
  case Nil
  then show ?case by simp
next
  case (snoc c ds)
  show ?case
  proof (cases "c = CHR ''0''")
    case True
    with snoc show ?thesis by (simp add: nat_of_digits_snoc)
  next
    case False
    with snoc.prems(1) have "0 < digit_value c" by (simp add: digit_value_pos)
    then show ?thesis by (simp add: nat_of_digits_snoc)
  qed
qed

lemma digits_split_zeros:
  "\<exists>k G. F = replicate k (CHR ''0'') @ G \<and> (G = [] \<or> hd G \<noteq> CHR ''0'')"
proof (induction F)
  case Nil
  then show ?case by simp
next
  case (Cons c F)
  show ?case
  proof (cases "c = CHR ''0''")
    case True
    from Cons obtain k G where "F = replicate k (CHR ''0'') @ G" "G = [] \<or> hd G \<noteq> CHR ''0''"
      by blast
    with True have "c # F = replicate (Suc k) (CHR ''0'') @ G \<and> (G = [] \<or> hd G \<noteq> CHR ''0'')"
      by simp
    then show ?thesis by blast
  next
    case False
    then have "c # F = replicate 0 (CHR ''0'') @ (c # F) \<and> (c # F = [] \<or> hd (c # F) \<noteq> CHR ''0'')"
      by simp
    then show ?thesis by blast
  qed
qed

section \<open>Parsing and rendering canonical text\<close>

lemma IsDigit_not_special:
  "IsDigit c \<Longrightarrow> c \<noteq> CHR ''.'' \<and> c \<noteq> CHR ''-'' \<and> c \<noteq> CHR ''+''"
  by (auto simp: IsDigit_cases)

lemma check_format_iff:
  "check_format s \<longleftrightarrow> (\<forall>c\<in>set s. IsDigit c \<or> c \<in> set allowedDecimalRunes)"
  by (induction s) auto

lemma Split_no_dot: "CHR ''.'' \<notin> set s \<Longrightarrow> Split s = [s]"
  by (induction s) (auto simp: decSeparator_def)

lemma Split_append_dot: "CHR ''.'' \<notin> set a \<Longrightarrow> Split (a @ CHR ''.'' # b) = a # Split b"
  by (induction a) (auto simp: decSeparator_def)

lemma big_SetString_digits:
  assumes "list_all IsDigit ds" "ds \<noteq> []"
  shows "big_SetString ds = Some (int (nat_of_digits ds))"
proof -
  from assms obtain c cs where ds: "ds = c # cs" by (cases ds) auto
  with assms(1) have "c \<noteq> CHR ''-''" "c \<noteq> CHR ''+''"
    using IsDigit_not_special [of c] by auto
  with assms show ?thesis
    by (simp add: big_SetString_def ds)
qed

lemma big_SetString_minus:
  assumes "list_all IsDigit ds" "ds \<noteq> []"
  shows "big_SetString (CHR ''-'' # ds) = Some (- int (nat_of_digits ds))"
  using assms by (simp add: big_SetString_def)

lemma sint32_word_of_int:
  "- 2147483648 \<le> k \<Longrightarrow> k \<le> 2147483647 \<Longrightarrow> sint (word_of_int k :: int32) = k"
  by (simp add: sint_sbintrunc' signed_take_bit_int_eq_self_iff)

lemma ParseDecimal_two_parts:
  assumes "check_format (s @ CHR ''.'' # F)" "CHR ''.'' \<notin> set s" "CHR ''.'' \<notin> set F"
    and "big_SetString (s @ F) = Some v" and "length F \<le> 2147483648"
  shows "ParseDecimal (s @ CHR ''.'' # F) = Inr \<lparr>value = v, exp = word_of_int (- int (length F))\<rparr>"
  unfolding ParseDecimal_def
  using assms(1,4,5)
  by (simp add: Split_append_dot [OF assms(2)] Split_no_dot [OF assms(3)])

lemma ParseDecimal_one_part:
  assumes "check_format s" "CHR ''.'' \<notin> set s" and "big_SetString s = Some v"
  shows "ParseDecimal s = Inr \<lparr>value = v, exp = 0\<rparr>"
  unfolding ParseDecimal_def
  using assms(1,3) by (simp add: Split_no_dot [OF assms(2)])

lemma ParseDecimal_canonical:
  assumes I: "list_all IsDigit I" "I \<noteq> []" and F: "list_all IsDigit F"
    and len: "length F \<le> 2147483648"
  shows "ParseDecimal ((if neg then ''-'' else []) @ I @ ''.'' @ F)
         = Inr \<lparr>value = (if neg then - int (nat_of_digits (I @ F)) else int (nat_of_digits (I @ F))),
                exp = word_of_int (- int (length F))\<rparr>"
proof -
  have ndF: "CHR ''.'' \<notin> set F" and ndI: "CHR ''.'' \<notin> set I"
    using I F IsDigit_not_special by (auto simp: list_all_iff)
  show ?thesis
  proof (cases neg)
    case True
    have "ParseDecimal ((CHR ''-'' # I) @ CHR ''.'' # F)
          = Inr \<lparr>value = - int (nat_of_digits (I @ F)), exp = word_of_int (- int (length F))\<rparr>"
    proof (rule ParseDecimal_two_parts)
      show "check_format ((CHR ''-'' # I) @ CHR ''.'' # F)"
        using I F by (auto simp: check_format_iff list_all_iff allowedDecimalRunes_def)
      show "CHR ''.'' \<notin> set (CHR ''-'' # I)" using ndI by simp
      show "big_SetString ((CHR ''-'' # I) @ F) = Some (- int (nat_of_digits (I @ F)))"
        using big_SetString_minus [of "I @ F"] I F by simp
    qed (fact ndF len)+
    with True show ?thesis by simp
  next
    case False
    have "ParseDecimal (I @ CHR ''.'' # F)
          = Inr \<lparr>value = int (nat_of_digits (I @ F)), exp = word_of_int (- int (length F))\<rparr>"
    proof (rule ParseDecimal_two_parts)
      show "check_format (I @ CHR ''.'' # F)"
        using I F by (auto simp: check_format_iff list_all_iff allowedDecimalRunes_def)
      show "big_SetString (I @ F) = Some (int (nat_of_digits (I @ F)))"
        using big_SetString_digits [of "I @ F"] I F by simp
    qed (fact ndI ndF len)+
    with False show ?thesis by simp
  qed
qed

lemma String_negative_exponent:
  assumes e: "sint (exp d) = - int n" and n: "0 < n" and str: "nat_String (nat \<bar>value d\<bar>) = str"
  shows "String d = (if value d < 0 then ''-'' else []) @
           (if n < length str then take (length str - n) str @ ''.'' @ drop (length str - n) str
            else ''0'' @ ''.'' @ replicate (n - length str) (CHR ''0'') @ str)"
proof -
  have bs: "big_String \<bar>value d\<bar> = str"
    using str by (simp add: big_String_def)
  have neg: "\<not> 0 \<le> sint (exp d)" using e n by simp
  show ?thesis
  proof (cases "n < length str")
    case True
    then have "int (length str) > - sint (exp d)" using e by simp
    moreover have "nat (int (length str) + sint (exp d)) = length str - n"
      using e True by simp
    moreover have "0 < length (drop (length str - n) str)" using True n by simp
    ultimately show ?thesis
      using True neg
      by (simp add: String_def Let_def bs big_Sign_neg_iff decSeparator_def del: length_drop length_greater_0_conv)
  next
    case False
    then have "\<not> int (length str) > - sint (exp d)" using e by simp
    moreover have "nat (- sint (exp d) - int (length str)) = n - length str"
      using e False by simp
    moreover have "0 < length (replicate (n - length str) (CHR ''0'') @ str)" using False n by simp
    ultimately show ?thesis
      using False neg
      by (simp add: String_def Let_def bs big_Sign_neg_iff decSeparator_def
          del: length_append length_replicate length_greater_0_conv)
  qed
qed

lemma render_digits:
  assumes I: "list_all IsDigit I" "I \<noteq> []" "I = ''0'' \<or> hd I \<noteq> CHR ''0''"
    and F: "list_all IsDigit F" "F \<noteq> []"
    and str: "str = nat_String (nat_of_digits (I @ F))"
  shows "(if length F < length str
          then take (length str - length F) str @ ''.'' @ drop (length str - length F) str
          else ''0'' @ ''.'' @ replicate (length F - length str) (CHR ''0'') @ str)
         = I @ ''.'' @ F"
proof (cases "hd I = CHR ''0''")
  case False
  have "nat_String (nat_of_digits (I @ F)) = I @ F"
    using nat_String_of_digits [of "I @ F"] I F False by simp
  then show ?thesis using I(2) str by simp
next
  case True
  with I have I0: "I = ''0''" by simp
  obtain k G where G: "F = replicate k (CHR ''0'') @ G" "G = [] \<or> hd G \<noteq> CHR ''0''"
    using digits_split_zeros by blast
  have N: "nat_of_digits (I @ F) = nat_of_digits G"
    using nat_of_digits_zeros [of "Suc k" G] by (simp add: I0 G(1))
  show ?thesis
  proof (cases "G = []")
    case True
    then have k: "0 < k" using F(2) G(1) by simp
    have "str = ''0''"
      using str N True by (simp add: nat_of_digits_Nil nat_String_small digit_char_def)
    moreover have "replicate (k - 1) (CHR ''0'') @ ''0'' = replicate k (CHR ''0'')"
      using k by (metis Suc_diff_1 replicate_Suc replicate_append_same)
    ultimately show ?thesis using k True by (simp add: I0 G(1))
  next
    case False
    have dG: "list_all IsDigit G" using F(1) G(1) by simp
    have "str = G"
      using nat_String_of_digits [OF dG False] G(2) False str N by simp
    then show ?thesis by (simp add: I0 G(1))
  qed
qed

lemmas parse_eval = ParseDecimal_def check_format.simps IsDigit_def allowedDecimalRunes_def
  Split.simps decSeparator_def big_SetString_def nat_of_digits_def digit_value_def

lemmas render_eval = String_def Let_def big_String_def nat_String_small nat_String_large
  digit_char_def big_Sign_def decSeparator_def roundPrec_def rescale_def

text \<open>
  A zero coefficient never renders a sign and a \<open>+\<close> is never rendered, so the texts
  \<open>-0.0\<close> and \<open>+1.5\<close>, each with a sign, an explicit point and no extraneous leading
  zero, do not come back from \<open>String\<close>.
\<close>

theorem ParseDecimal_String_counterexample:
  "ParseDecimal ''-0.0'' = Inr \<lparr>value = 0, exp = - 1\<rparr>
   \<and> String \<lparr>value = 0, exp = - 1\<rparr> = ''0.0''
   \<and> String \<lparr>value = 0, exp = - 1\<rparr> \<noteq> ''-0.0''
   \<and> ParseDecimal ''+1.5'' = Inr \<lparr>value = 15, exp = - 1\<rparr>
   \<and> String \<lparr>value = 15, exp = - 1\<rparr> = ''1.5''
   \<and> String \<lparr>value = 15, exp = - 1\<rparr> \<noteq> ''+1.5''"
  by (simp add: parse_eval render_eval)

text \<open>
  C5 (amended). For every text \<open>T\<close> made of an optional \<open>-\<close>, one or more digits
  without an extraneous leading zero, a point, and between one and \<open>2 ^ 31\<close> digits, where
  the \<open>-\<close> is present only if some digit is not zero, \<open>ParseDecimal T\<close> succeeds and
  \<open>String\<close> of the result is exactly \<open>T\<close>; the trailing zeros of the scale are kept, so
  \<open>120.00\<close> comes back as \<open>120.00\<close> and not as \<open>120\<close>.
\<close>

theorem ParseDecimal_String_round_trip:
  assumes "list_all IsDigit I" "I \<noteq> []" "I = ''0'' \<or> hd I \<noteq> CHR ''0''"
    and "list_all IsDigit F" "F \<noteq> []" "length F \<le> 2147483648"
    and "neg \<longrightarrow> (\<exists>c\<in>set (I @ F). c \<noteq> CHR ''0'')"
  shows "\<exists>d. ParseDecimal ((if neg then ''-'' else []) @ I @ ''.'' @ F) = Inr d
           \<and> String d = (if neg then ''-'' else []) @ I @ ''.'' @ F"
proof -
  define N where "N = nat_of_digits (I @ F)"
  define d where "d = \<lparr>value = (if neg then - int N else int N),
                        exp = word_of_int (- int (length F)) :: int32\<rparr>"
  have p: "ParseDecimal ((if neg then ''-'' else []) @ I @ ''.'' @ F) = Inr d"
    unfolding d_def N_def using assms(1,2,4,6) by (rule ParseDecimal_canonical)
  have e: "sint (exp d) = - int (length F)"
    using assms(6) sint32_word_of_int [of "- int (length F)"] by (simp add: d_def del: of_int_minus)
  have "neg \<longrightarrow> 0 < N"
    unfolding N_def using nat_of_digits_pos [of "I @ F"] assms(1,4,7) by simp
  then have sg: "value d < 0 \<longleftrightarrow> neg" by (auto simp: d_def)
  have str: "nat_String (nat \<bar>value d\<bar>) = nat_String N" by (simp add: d_def)
  have sN: "nat_String N = nat_String (nat_of_digits (I @ F))" by (simp add: N_def)
  have n: "0 < length F" using assms(5) by simp
  have "String d = (if neg then ''-'' else []) @ I @ ''.'' @ F"
    unfolding String_negative_exponent [OF e n str] sg
      render_digits [OF assms(1,2,3,4,5) sN] ..
  with p show ?thesis by blast
qed

theorem ParseDecimal_String_round_trip_witness:
  "ParseDecimal ''120.00'' = Inr \<lparr>value = 12000, exp = - 2\<rparr>
   \<and> String \<lparr>value = 12000, exp = - 2\<rparr> = ''120.00''
   \<and> String \<lparr>value = 12000, exp = - 2\<rparr> \<noteq> ''120''"
proof -
  have p: "ParseDecimal ''120.00'' = Inr \<lparr>value = 12000, exp = - 2\<rparr>"
    by (simp add: parse_eval)
  have "\<exists>d. ParseDecimal ((if False then ''-'' else []) @ ''120'' @ ''.'' @ ''00'') = Inr d
           \<and> String d = (if False then ''-'' else []) @ ''120'' @ ''.'' @ ''00''"
    by (rule ParseDecimal_String_round_trip) (simp_all add: IsDigit_def)
  with p show ?thesis by auto
qed

section \<open>When parsing fails\<close>

lemma Split_not_Nil: "Split s \<noteq> []"
  by (induction s) (auto split: list.splits)

lemma ParseDecimal_bad_format: "\<not> check_format text \<Longrightarrow> ParseDecimal text = Inl ErrInvalidDecimal"
  by (simp add: ParseDecimal_def)

lemma ParseDecimal_no_point:
  assumes "check_format text" "CHR ''.'' \<notin> set text"
  shows "ParseDecimal text = (case big_SetString text of None \<Rightarrow> Inl ErrInvalidDecimal
                                | Some v \<Rightarrow> Inr \<lparr>value = v, exp = 0\<rparr>)"
  unfolding ParseDecimal_def using assms(1)
  by (simp add: Split_no_dot [OF assms(2)] split: option.splits)

lemma ParseDecimal_one_point:
  assumes "check_format (a @ CHR ''.'' # b)" "CHR ''.'' \<notin> set a" "CHR ''.'' \<notin> set b"
  shows "ParseDecimal (a @ CHR ''.'' # b) =
           (case big_SetString (a @ b) of None \<Rightarrow> Inl ErrInvalidDecimal
            | Some v \<Rightarrow> if 2147483648 < length b then Inl ErrInvalidDecimal
                        else Inr \<lparr>value = v, exp = word_of_int (- int (length b))\<rparr>)"
  unfolding ParseDecimal_def using assms(1)
  by (simp add: Split_append_dot [OF assms(2)] Split_no_dot [OF assms(3)] split: option.splits)

lemma ParseDecimal_more_points:
  assumes "CHR ''.'' \<notin> set a" "CHR ''.'' \<in> set b"
  shows "ParseDecimal (a @ CHR ''.'' # b) = Inl ErrInvalidDecimal"
proof -
  from assms(2) obtain b1 b2 where b: "b = b1 @ CHR ''.'' # b2" "CHR ''.'' \<notin> set b1"
    by (meson split_list_first)
  obtain p ps where "Split b2 = p # ps" using Split_not_Nil [of b2] by (cases "Split b2") auto
  then have "Split (a @ CHR ''.'' # b) = a # b1 # p # ps"
    by (simp add: Split_append_dot [OF assms(1)] b(1) Split_append_dot [OF b(2)])
  then show ?thesis by (simp add: ParseDecimal_def)
qed

lemma not_all_digits_iff_sign:
  assumes "\<forall>c\<in>set L. IsDigit c \<or> c = CHR ''+'' \<or> c = CHR ''-''"
  shows "\<not> list_all IsDigit L \<longleftrightarrow> (\<exists>c\<in>set L. c = CHR ''+'' \<or> c = CHR ''-'')"
  using assms IsDigit_not_special by (auto simp: list_all_iff)

lemma big_SetString_Nil: "big_SetString [] = None"
  by (simp add: big_SetString_def)

lemma big_SetString_signed:
  "c = CHR ''+'' \<or> c = CHR ''-'' \<Longrightarrow>
   big_SetString (c # cs) =
     (if cs = [] \<or> \<not> list_all IsDigit cs then None
      else Some (if c = CHR ''-'' then - int (nat_of_digits cs) else int (nat_of_digits cs)))"
  by (auto simp: big_SetString_def)

lemma big_SetString_unsigned:
  "c \<noteq> CHR ''+'' \<Longrightarrow> c \<noteq> CHR ''-'' \<Longrightarrow>
   big_SetString (c # cs) =
     (if \<not> list_all IsDigit (c # cs) then None else Some (int (nat_of_digits (c # cs))))"
  by (simp add: big_SetString_def)

lemma big_SetString_None_iff:
  assumes "\<forall>c\<in>set L. IsDigit c \<or> c = CHR ''+'' \<or> c = CHR ''-''"
  shows "big_SetString L = None \<longleftrightarrow>
           (\<exists>c\<in>set (tl L). c = CHR ''+'' \<or> c = CHR ''-'') \<or> \<not> (\<exists>c\<in>set L. IsDigit c)"
proof (cases L)
  case Nil
  then show ?thesis by (simp add: big_SetString_Nil)
next
  case (Cons c cs)
  have cs: "\<forall>x\<in>set cs. IsDigit x \<or> x = CHR ''+'' \<or> x = CHR ''-''" using assms Cons by simp
  note nd = not_all_digits_iff_sign [OF cs]
  show ?thesis
  proof (cases "c = CHR ''+'' \<or> c = CHR ''-''")
    case True
    then have c: "\<not> IsDigit c" using IsDigit_not_special [of c] by auto
    have n: "big_SetString L = None \<longleftrightarrow> cs = [] \<or> \<not> list_all IsDigit cs"
      by (simp add: Cons big_SetString_signed [OF True])
    show ?thesis
    proof (cases "cs = []")
      case True
      then show ?thesis using n c by (simp add: Cons)
    next
      case False
      then obtain x xs where x: "cs = x # xs" by (cases cs) auto
      show ?thesis
      proof (cases "list_all IsDigit cs")
        case True
        then have "IsDigit x" by (simp add: x)
        then have "\<exists>y\<in>set L. IsDigit y" by (auto simp: Cons x)
        moreover have "\<not> (\<exists>c\<in>set (tl L). c = CHR ''+'' \<or> c = CHR ''-'')"
          using nd True by (simp add: Cons)
        ultimately show ?thesis using n True False by simp
      next
        case False
        then have "\<exists>c\<in>set (tl L). c = CHR ''+'' \<or> c = CHR ''-''"
          using nd by (simp add: Cons)
        then show ?thesis using n False by simp
      qed
    qed
  next
    case False
    then have c: "IsDigit c" using assms Cons by simp
    have "big_SetString L = None \<longleftrightarrow> \<not> list_all IsDigit cs"
      using False c by (simp add: Cons big_SetString_unsigned)
    moreover have "\<exists>y\<in>set L. IsDigit y" using c by (auto simp: Cons)
    ultimately show ?thesis using nd by (simp add: Cons)
  qed
qed

lemma big_SetString_Some_value:
  assumes "big_SetString L = Some v"
  shows "v = (if hd L = CHR ''-'' then - 1 else 1) * int (nat_of_digits (filter IsDigit L))"
proof (cases L)
  case Nil
  with assms show ?thesis by (simp add: big_SetString_Nil)
next
  case (Cons c cs)
  show ?thesis
  proof (cases "c = CHR ''+'' \<or> c = CHR ''-''")
    case True
    then have c: "\<not> IsDigit c" using IsDigit_not_special [of c] by auto
    from assms have *: "list_all IsDigit cs"
      "v = (if c = CHR ''-'' then - int (nat_of_digits cs) else int (nat_of_digits cs))"
      by (simp_all add: Cons big_SetString_signed [OF True] split: if_splits)
    from *(1) have "filter IsDigit cs = cs" by (simp add: list_all_iff)
    then show ?thesis using c *(2) by (simp add: Cons)
  next
    case False
    from assms False have *: "list_all IsDigit (c # cs)" "v = int (nat_of_digits (c # cs))"
      by (simp_all add: Cons big_SetString_unsigned split: if_splits)
    from *(1) have "filter IsDigit (c # cs) = c # cs" by (simp add: list_all_iff)
    then show ?thesis using *(2) False by (simp add: Cons)
  qed
qed

lemma IsDigit_not_point: "\<not> IsDigit (CHR ''.'')"
  by (simp add: IsDigit_def)

text \<open>
  C9 (amended). For every text that does not begin with a point followed by a sign,
  \<open>ParseDecimal\<close> fails with the invalid-decimal error exactly when the text contains a
  character other than a digit, a sign or a point, or more than one point, or a sign
  anywhere but in the first position, or no digit at all, or more than \<open>2 ^ 31\<close>
  characters after the point. Otherwise it succeeds with the exponent set to minus the
  number of digits after the point (0 without a point) and the coefficient denoted by
  the digits and the sign. The result is always either that error or a decimal.
\<close>

theorem ParseDecimal_fails_iff:
  assumes ns: "\<not> (\<exists>s rest. text = CHR ''.'' # s # rest \<and> (s = CHR ''+'' \<or> s = CHR ''-''))"
  shows "(ParseDecimal text = Inl ErrInvalidDecimal \<longleftrightarrow>
            (\<exists>c\<in>set text. \<not> IsDigit c \<and> c \<noteq> CHR ''+'' \<and> c \<noteq> CHR ''-'' \<and> c \<noteq> CHR ''.'')
            \<or> 1 < count_list text (CHR ''.'')
            \<or> (\<exists>c\<in>set (tl text). c = CHR ''+'' \<or> c = CHR ''-'')
            \<or> \<not> (\<exists>c\<in>set text. IsDigit c)
            \<or> 2147483648 < length (drop 1 (dropWhile (\<lambda>c. c \<noteq> CHR ''.'') text)))
       \<and> (ParseDecimal text = Inl ErrInvalidDecimal
          \<or> (\<exists>d. ParseDecimal text = Inr d
                \<and> sint (exp d) = - int (length (drop 1 (dropWhile (\<lambda>c. c \<noteq> CHR ''.'') text)))
                \<and> value d = (if hd text = CHR ''-'' then - 1 else 1)
                              * int (nat_of_digits (filter IsDigit text))))"
    (is "(?fail \<longleftrightarrow> ?bad \<or> ?points \<or> ?signs \<or> ?nodigit \<or> ?long) \<and> (?fail \<or> ?ok)")
proof (cases "check_format text")
  case False
  then have ?fail by (rule ParseDecimal_bad_format)
  moreover from False have ?bad
    by (auto simp: check_format_iff allowedDecimalRunes_def)
  ultimately show ?thesis by blast
next
  case cf: True
  then have allowed: "\<forall>c\<in>set text. IsDigit c \<or> c = CHR ''+'' \<or> c = CHR ''-'' \<or> c = CHR ''.''"
    by (auto simp: check_format_iff allowedDecimalRunes_def)
  then have nbad: "\<not> ?bad" by blast
  show ?thesis
  proof (cases "CHR ''.'' \<in> set text")
    case False
    then have L: "\<forall>c\<in>set text. IsDigit c \<or> c = CHR ''+'' \<or> c = CHR ''-''"
      using allowed by blast
    have np: "\<not> ?points" using False by (simp add: count_list_0_iff)
    have "dropWhile (\<lambda>c. c \<noteq> CHR ''.'') text = []"
      using False by (auto simp: dropWhile_eq_Nil_conv)
    then have after: "drop 1 (dropWhile (\<lambda>c. c \<noteq> CHR ''.'') text) = []"
      by (simp only: drop_Nil)
    have nl: "\<not> ?long" by (simp only: after) simp
    note pd = ParseDecimal_no_point [OF cf False]
    show ?thesis
    proof (cases "big_SetString text")
      case None
      then have ?fail by (simp add: pd)
      moreover from None have "?signs \<or> ?nodigit"
        using big_SetString_None_iff [OF L] by simp
      ultimately show ?thesis by blast
    next
      case (Some v)
      then have p: "ParseDecimal text = Inr \<lparr>value = v, exp = 0\<rparr>" by (simp add: pd)
      from Some have "\<not> (?signs \<or> ?nodigit)"
        using big_SetString_None_iff [OF L] by simp
      then have 1: "?fail \<longleftrightarrow> ?bad \<or> ?points \<or> ?signs \<or> ?nodigit \<or> ?long"
        using p nbad np nl by simp
      have ?ok
        unfolding after using p big_SetString_Some_value [OF Some] by simp
      with 1 show ?thesis by blast
    qed
  next
    case True
    then obtain a b where t: "text = a @ CHR ''.'' # b" and a: "CHR ''.'' \<notin> set a"
      by (meson split_list_first)
    have "dropWhile (\<lambda>c. c \<noteq> CHR ''.'') (a @ CHR ''.'' # b) = CHR ''.'' # b"
      using a by (induction a) auto
    then have after: "drop 1 (dropWhile (\<lambda>c. c \<noteq> CHR ''.'') text) = b"
      by (simp add: t)
    have cnt: "count_list text (CHR ''.'') = Suc (count_list b (CHR ''.''))"
      using a by (simp add: t count_list_0_iff)
    show ?thesis
    proof (cases "CHR ''.'' \<in> set b")
      case True
      have ?fail unfolding t using a True by (rule ParseDecimal_more_points)
      moreover have "count_list b (CHR ''.'') \<noteq> 0" using True by (simp add: count_list_0_iff)
      then have ?points using cnt by simp
      ultimately show ?thesis by blast
    next
      case b: False
      have np: "\<not> ?points" using b cnt by (simp add: count_list_0_iff)
      have L: "\<forall>c\<in>set (a @ b). IsDigit c \<or> c = CHR ''+'' \<or> c = CHR ''-''"
        using allowed a b by (auto simp: t)
      have hdb: "a = [] \<Longrightarrow> b \<noteq> [] \<Longrightarrow> hd b \<noteq> CHR ''+'' \<and> hd b \<noteq> CHR ''-''"
        using ns by (cases b) (auto simp: t)
      have signs: "(\<exists>c\<in>set (tl (a @ b)). c = CHR ''+'' \<or> c = CHR ''-'') \<longleftrightarrow> ?signs"
      proof (cases a)
        case Nil
        show ?thesis
        proof (cases b)
          case Nil
          then show ?thesis by (simp add: t \<open>a = []\<close>)
        next
          case (Cons x xs)
          then show ?thesis using hdb \<open>a = []\<close> by (auto simp: t)
        qed
      next
        case (Cons x xs)
        then show ?thesis by (auto simp: t)
      qed
      have digits: "(\<exists>c\<in>set (a @ b). IsDigit c) \<longleftrightarrow> (\<exists>c\<in>set text. IsDigit c)"
        using IsDigit_not_point by (auto simp: t)
      have none: "big_SetString (a @ b) = None \<longleftrightarrow> ?signs \<or> ?nodigit"
        unfolding big_SetString_None_iff [OF L] signs digits ..
      have pd: "ParseDecimal text =
           (case big_SetString (a @ b) of None \<Rightarrow> Inl ErrInvalidDecimal
            | Some v \<Rightarrow> if 2147483648 < length b then Inl ErrInvalidDecimal
                        else Inr \<lparr>value = v, exp = word_of_int (- int (length b))\<rparr>)"
        unfolding t using cf a b unfolding t by (rule ParseDecimal_one_point)
      show ?thesis
      proof (cases "big_SetString (a @ b)")
        case None
        then have ?fail by (simp add: pd)
        with None none show ?thesis by blast
      next
        case (Some v)
        then have ns2: "\<not> (?signs \<or> ?nodigit)" using none by simp
        show ?thesis
        proof (cases "2147483648 < length b")
          case True
          then have ?fail using Some by (simp add: pd)
          moreover have ?long unfolding after using True .
          ultimately show ?thesis by blast
        next
          case False
          then have p: "ParseDecimal text = Inr \<lparr>value = v, exp = word_of_int (- int (length b))\<rparr>"
            using Some by (simp add: pd)
          have nl: "\<not> ?long" unfolding after using False .
          have 1: "?fail \<longleftrightarrow> ?bad \<or> ?points \<or> ?signs \<or> ?nodigit \<or> ?long"
            using p nbad np nl ns2 by simp
          have "- 2147483648 \<le> - int (length b)" "- int (length b) \<le> 2147483647"
            using False by linarith+
          then have e: "sint (word_of_int (- int (length b)) :: int32) = - int (length b)"
            by (rule sint32_word_of_int)
          have f: "filter IsDigit text = filter IsDigit (a @ b)"
            using IsDigit_not_point by (simp add: t)
          have ab: "a @ b \<noteq> []" using Some by (auto simp: big_SetString_Nil)
          have h: "hd text = CHR ''-'' \<longleftrightarrow> hd (a @ b) = CHR ''-''"
          proof (cases a)
            case Nil
            then have "hd b \<noteq> CHR ''-''" using hdb ab by simp
            then show ?thesis by (simp add: t Nil)
          next
            case (Cons x xs)
            then show ?thesis by (simp add: t)
          qed
          have ?ok
            unfolding after f h using p e big_SetString_Some_value [OF Some] by simp
          with 1 show ?thesis by blast
        qed
      qed
    qed
  qed
qed

text \<open>
  The excluded shape: a sign right after a leading point is passed on to \<open>SetString\<close> as
  the sign of the number and is counted as a digit of the fraction.
\<close>

lemma ParseDecimal_sign_after_point:
  "ParseDecimal ''.-5'' = Inr \<lparr>value = - 5, exp = - 2\<rparr>"
  by (simp add: parse_eval)

text \<open>
  The empty text and the lone point hold no character outside the format and at most
  one point, and are refused all the same: \<open>SetString\<close> needs a digit.
\<close>

theorem ParseDecimal_no_digit_counterexample:
  "check_format '''' \<and> count_list '''' (CHR ''.'') = 0
   \<and> ParseDecimal '''' = Inl ErrInvalidDecimal
   \<and> check_format ''.'' \<and> count_list ''.'' (CHR ''.'') = 1
   \<and> CHR ''+'' \<notin> set ''.'' \<and> CHR ''-'' \<notin> set ''.''
   \<and> ParseDecimal ''.'' = Inl ErrInvalidDecimal"
  by (simp add: parse_eval)

theorem ParseDecimal_fails_iff_witness:
  "(\<exists>d. ParseDecimal ''-12.50'' = Inr d \<and> sint (exp d) = - 2 \<and> value d = - 1250)
   \<and> ParseDecimal ''1.2.3'' = Inl ErrInvalidDecimal
   \<and> ParseDecimal ''1-5'' = Inl ErrInvalidDecimal
   \<and> ParseDecimal ''-.'' = Inl ErrInvalidDecimal"
proof -
  have ns: "\<not> (\<exists>s rest. t = CHR ''.'' # s # rest \<and> (s = CHR ''+'' \<or> s = CHR ''-''))"
    if "hd t \<noteq> CHR ''.''" for t
    using that by auto
  have 1: "\<exists>d. ParseDecimal ''-12.50'' = Inr d \<and> sint (exp d) = - 2 \<and> value d = - 1250"
    using ParseDecimal_fails_iff [OF ns, of "''-12.50''"]
    by (auto simp: IsDigit_def nat_of_digits_def digit_value_def)
  have 2: "ParseDecimal ''1.2.3'' = Inl ErrInvalidDecimal"
    using ParseDecimal_fails_iff [OF ns, of "''1.2.3''"] by simp
  have 3: "ParseDecimal ''1-5'' = Inl ErrInvalidDecimal"
    using ParseDecimal_fails_iff [OF ns, of "''1-5''"] by simp
  have 4: "ParseDecimal ''-.'' = Inl ErrInvalidDecimal"
    using ParseDecimal_fails_iff [OF ns, of "''-.''"] by (simp add: IsDigit_def)
  from 1 2 3 4 show ?thesis by blast
qed

section \<open>Rounding to a unit: the arithmetic of the remainder\<close>

lemma big_Quo_nonneg: "0 \<le> a \<Longrightarrow> 0 < b \<Longrightarrow> big_Quo a b = a div b"
  by (auto simp: big_Quo_def big_Sign_def)

lemma big_Quo_minus: "big_Quo (- a) b = - big_Quo a b"
  by (simp add: big_Quo_def big_Sign_def)

lemma big_Rem_nonneg: "0 \<le> a \<Longrightarrow> 0 < b \<Longrightarrow> big_Rem a b = a mod b"
  by (simp add: big_Rem_def big_Quo_nonneg minus_mult_div_eq_mod)

lemma big_Rem_minus: "big_Rem (- a) b = - big_Rem a b"
  by (simp add: big_Rem_def big_Quo_minus)

lemma int_less_succ_div_mult:
  fixes a U :: int
  assumes "0 < U"
  shows "a < (a div U + 1) * U"
proof -
  have "a = a div U * U + a mod U" by simp
  moreover have "a mod U < U" using assms by simp
  moreover have "(a div U + 1) * U = a div U * U + U" by (simp add: algebra_simps)
  ultimately show ?thesis by linarith
qed

lemma int_div_of_small_offset:
  fixes T k j :: int
  assumes "0 \<le> j" "j < T"
  shows "(k * T + j) div T = k"
proof -
  have "(j + k * T) div T = j div T + k" using assms by simp
  moreover have "j div T = 0" using assms by (simp add: div_pos_pos_trivial)
  ultimately show ?thesis by (simp add: add.commute)
qed

text \<open>The quotient at 16 digits, bumped or not, truncates to the integer quotient.\<close>

lemma scaled_quotient_div:
  fixes a U T :: int
  assumes "0 \<le> a" "0 < U" "0 < T"
  shows "(a * T) div U div T = a div U"
proof -
  have "(a * T) div U div T = (a * T) div (U * T)"
    using assms by (simp add: zdiv_zmult2_eq)
  also have "\<dots> = a div U" using assms by simp
  finally show ?thesis .
qed

lemma scaled_quotient_bump:
  fixes a U T :: int
  assumes a: "0 \<le> a" and U: "0 < U" "U \<le> T" and R: "1 \<le> (a * T) mod U"
  shows "((a * T) div U + 1) div T = a div U" and "((a * T) div U - 1) div T = a div U"
proof -
  have T: "0 < T" using U by simp
  define Q where "Q = (a * T) div U"
  define R where "R = (a * T) mod U"
  define k where "k = a div U"
  define j where "j = Q mod T"
  have QR: "a * T = Q * U + R" by (simp add: Q_def R_def)
  have Rb: "1 \<le> R" "R < U" using R U by (simp_all add: R_def)
  have Qk: "Q div T = k" unfolding Q_def k_def using a U(1) T by (rule scaled_quotient_div)
  have Qj: "Q = k * T + j" unfolding j_def Qk [symmetric] by simp
  have jb: "0 \<le> j" "j < T" using T by (simp_all add: j_def)
  have "a < (k + 1) * U" unfolding k_def using U(1) by (rule int_less_succ_div_mult)
  then have "a + 1 \<le> (k + 1) * U" by simp
  then have "(a + 1) * T \<le> ((k + 1) * U) * T" using T by (simp only: mult_right_mono less_imp_le)
  then have aT: "a * T + T \<le> k * U * T + U * T" by (simp add: algebra_simps)
  have kU: "k * U \<le> a" unfolding k_def using U(1)
    by (metis div_mult_mod_eq le_add_same_cancel1 pos_mod_sign)
  have eq: "a * T = k * T * U + j * U + R" using QR Qj by (simp add: algebra_simps)
  have up: "j + 1 < T"
  proof (rule ccontr)
    assume "\<not> j + 1 < T"
    then have j: "j = T - 1" using jb by simp
    have "a * T = k * T * U + (T - 1) * U + R" using eq j by simp
    also have "\<dots> = k * U * T + U * T - U + R" by (simp add: algebra_simps)
    finally have "R + T \<le> U" using aT by simp
    then show False using Rb U by simp
  qed
  have down: "1 \<le> j"
  proof (rule ccontr)
    assume "\<not> 1 \<le> j"
    then have j: "j = 0" using jb by simp
    have "R = (a - k * U) * T" using eq j by (simp add: algebra_simps)
    moreover have "0 < a - k * U"
    proof (rule ccontr)
      assume "\<not> 0 < a - k * U"
      then have "a - k * U = 0" using kU by simp
      then show False using \<open>R = (a - k * U) * T\<close> Rb by simp
    qed
    then have "1 * T \<le> (a - k * U) * T" using T by (intro mult_right_mono) simp_all
    ultimately have "T \<le> R" by simp
    then show False using Rb U by simp
  qed
  have "(k * T + (j + 1)) div T = k" using jb up by (intro int_div_of_small_offset) simp_all
  then show "((a * T) div U + 1) div T = a div U"
    by (simp add: Q_def [symmetric] k_def [symmetric] Qj add.assoc)
  have "(k * T + (j - 1)) div T = k" using jb down by (intro int_div_of_small_offset) simp_all
  then show "((a * T) div U - 1) div T = a div U"
    by (simp add: Q_def [symmetric] k_def [symmetric] Qj add_diff_eq)
qed

lemma Div_then_truncate_nonneg:
  fixes a U T :: int
  assumes U: "0 < U" "U \<le> T" and a: "0 \<le> a"
  shows "big_Quo (if 2 * \<bar>big_Rem (a * T) U\<bar> < U then big_Quo (a * T) U
                      else big_Quo (a * T) U + 1) T = big_Quo a U"
    and "big_Quo (if 2 * \<bar>big_Rem (a * T) U\<bar> < U then big_Quo (a * T) U
                      else big_Quo (a * T) U - 1) T = big_Quo a U"
proof -
  have T: "0 < T" using U by simp
  have aT: "0 \<le> a * T" using a T by simp
  have Q: "big_Quo (a * T) U = (a * T) div U" using aT U(1) by (rule big_Quo_nonneg)
  have R: "big_Rem (a * T) U = (a * T) mod U" using aT U(1) by (rule big_Rem_nonneg)
  have Rn: "0 \<le> (a * T) mod U" using U(1) by simp
  have Qn: "0 \<le> (a * T) div U" using aT U(1) by (simp add: pos_imp_zdiv_nonneg_iff)
  have k: "big_Quo a U = a div U" using a U(1) by (rule big_Quo_nonneg)
  have kn: "0 \<le> a div U" using a U(1) by (simp add: pos_imp_zdiv_nonneg_iff)
  have absR: "\<bar>(a * T) mod U\<bar> = (a * T) mod U" using Rn by simp
  have both: "big_Quo (if 2 * \<bar>big_Rem (a * T) U\<bar> < U then big_Quo (a * T) U
                      else big_Quo (a * T) U + 1) T = big_Quo a U
     \<and> big_Quo (if 2 * \<bar>big_Rem (a * T) U\<bar> < U then big_Quo (a * T) U
                      else big_Quo (a * T) U - 1) T = big_Quo a U"
  proof (cases "2 * ((a * T) mod U) < U")
    case True
    have "big_Quo ((a * T) div U) T = a div U"
      unfolding big_Quo_nonneg [OF Qn T] using a U(1) T by (rule scaled_quotient_div)
    then show ?thesis
      unfolding Q R k absR using True by simp
  next
    case False
    then have R1: "1 \<le> (a * T) mod U" using U(1) by linarith
    note b = scaled_quotient_bump [OF a U R1]
    have Q1: "0 \<le> (a * T) div U - 1"
    proof (rule ccontr)
      assume "\<not> 0 \<le> (a * T) div U - 1"
      then have "(a * T) div U = 0" using Qn by simp
      then have "((a * T) div U - 1) div T = - 1"
        using T by (simp add: div_eq_minus1)
      then show False using b(2) kn by simp
    qed
    have Q2: "0 \<le> (a * T) div U + 1" using Qn by simp
    have "big_Quo ((a * T) div U + 1) T = a div U"
      unfolding big_Quo_nonneg [OF Q2 T] by (rule b(1))
    moreover have "big_Quo ((a * T) div U - 1) T = a div U"
      unfolding big_Quo_nonneg [OF Q1 T] by (rule b(2))
    ultimately show ?thesis
      unfolding Q R k absR using False by simp
  qed
  from both show "big_Quo (if 2 * \<bar>big_Rem (a * T) U\<bar> < U then big_Quo (a * T) U
                      else big_Quo (a * T) U + 1) T = big_Quo a U" ..
  from both show "big_Quo (if 2 * \<bar>big_Rem (a * T) U\<bar> < U then big_Quo (a * T) U
                      else big_Quo (a * T) U - 1) T = big_Quo a U" ..
qed

lemma Div_then_truncate_is_quotient:
  fixes w U T :: int
  assumes U: "0 < U" "U \<le> T"
  shows "big_Quo (if 2 * \<bar>big_Rem (w * T) U\<bar> < U then big_Quo (w * T) U
                  else big_Quo (w * T) U + 1) T = big_Quo w U"
proof (cases "0 \<le> w")
  case True
  with U show ?thesis by (rule Div_then_truncate_nonneg(1))
next
  case False
  define a where "a = - w"
  have a: "0 \<le> a" using False by (simp add: a_def)
  have w: "w = - a" by (simp add: a_def)
  have wT: "w * T = - (a * T)" by (simp add: a_def)
  define Q where "Q = big_Quo (a * T) U"
  define c where "c \<longleftrightarrow> 2 * \<bar>big_Rem (a * T) U\<bar> < U"
  have "(if c then - Q else - Q + 1) = - (if c then Q else Q - 1)" by simp
  then have "big_Quo (if c then - Q else - Q + 1) T = - big_Quo (if c then Q else Q - 1) T"
    by (simp only: big_Quo_minus)
  also have "big_Quo (if c then Q else Q - 1) T = big_Quo a U"
    unfolding c_def Q_def using U a by (rule Div_then_truncate_nonneg(2))
  finally show ?thesis
    unfolding w mult_minus_left big_Quo_minus big_Rem_minus abs_minus_cancel
    unfolding c_def Q_def .
qed

section \<open>Rounding to a unit: the steps of RoundNearest\<close>

text \<open>
  The lemmas below follow \<open>RoundNearest\<close> for a unit with a positive coefficient of at
  most \<open>10 ^ 16\<close> and an exponent from \<open>- 15\<close> to \<open>MaxInt32 - 16\<close>: there \<open>Mod\<close> is the
  exact truncated remainder and half the unit is exact at 16 digits.
\<close>

lemma big_Cmp_neg_iff: "big_Cmp a b < 0 \<longleftrightarrow> a < b"
  by (simp add: big_Cmp_def)

lemma quoRem_same_exp:
  assumes "value u \<noteq> 0" "exp d = exp u"
  shows "quoRem d u 16 = Inr (\<lparr>value = big_Quo (value d * 10 ^ 16) (value u), exp = - 16\<rparr>,
                              \<lparr>value = big_Rem (value d * 10 ^ 16) (value u), exp = - 16 + exp u\<rparr>)"
  using assms by (simp add: quoRem_def Let_def big_Exp_def)

lemma Add_same_exp: "exp a = exp b \<Longrightarrow> Add a b = \<lparr>value = value a + value b, exp = exp a\<rparr>"
  by (simp add: Add_def Let_def min_int32_def rescale_def)

lemma Sub_same_exp: "exp a = exp b \<Longrightarrow> Sub a b = \<lparr>value = value a - value b, exp = exp a\<rparr>"
  by (simp add: Sub_def Let_def min_int32_def rescale_def)

lemma Cmp_same_exp: "exp a = exp b \<Longrightarrow> Cmp a b = big_Cmp (value a) (value b)"
  by (simp add: Cmp_def)

lemma Div_same_exp:
  assumes "0 < value u" "exp d = exp u"
  shows "Div d u = Inr \<lparr>value = (if 2 * \<bar>big_Rem (value d * 10 ^ 16) (value u)\<bar> < value u
                                 then big_Quo (value d * 10 ^ 16) (value u)
                                 else big_Quo (value d * 10 ^ 16) (value u) + 1),
                        exp = - 16\<rparr>"
proof -
  have nz: "value u \<noteq> 0" using assms(1) by simp
  show ?thesis
    unfolding Div_def divRound_def divisionPrecision_def quoRem_same_exp [OF nz assms(2)]
    using assms(1)
    by (simp add: Let_def Cmp_same_exp Abs_def big_Cmp_neg_iff divRound_Sub_branch_dead
        Add_same_exp buildDecimal_def mult.commute)
qed

lemma Truncate_0_of_16:
  "Truncate \<lparr>value = q, exp = - 16\<rparr> 0 = \<lparr>value = big_Quo q (10 ^ 16), exp = 0\<rparr>"
  by (simp add: Truncate_def rescale_def Let_def big_Exp_def)

lemma Mul_by_integer: "Mul u \<lparr>value = k, exp = 0\<rparr> = Inr \<lparr>value = value u * k, exp = exp u\<rparr>"
  using sint32_bounds [of "exp u"] by (simp add: Mul_def Let_def)

lemma Mod_same_exp:
  assumes "0 < value u" "value u \<le> 10 ^ 16" "exp d = exp u"
  shows "Mod d u = Inr \<lparr>value = big_Rem (value d) (value u), exp = exp u\<rparr>"
proof -
  define q' where "q' = (if 2 * \<bar>big_Rem (value d * 10 ^ 16) (value u)\<bar> < value u
                                 then big_Quo (value d * 10 ^ 16) (value u)
                                 else big_Quo (value d * 10 ^ 16) (value u) + 1)"
  have D: "Div d u = Inr \<lparr>value = q', exp = - 16\<rparr>"
    unfolding q'_def using assms(1,3) by (rule Div_same_exp)
  have k: "big_Quo q' (10 ^ 16) = big_Quo (value d) (value u)"
    unfolding q'_def using assms(1,2) by (rule Div_then_truncate_is_quotient)
  have T: "Truncate \<lparr>value = q', exp = - 16\<rparr> 0 = \<lparr>value = big_Quo (value d) (value u), exp = 0\<rparr>"
    by (simp only: Truncate_0_of_16 k)
  show ?thesis
    unfolding Mod_def D
    by (simp add: Let_def T Mul_by_integer Sub_same_exp assms(3) big_Rem_def)
qed

lemma sint32_plus_16:
  assumes "sint (e::int32) \<le> 2147483631"
  shows "sint (e + 16) = sint e + 16"
  using assms sint32_bounds [of e] sint32_add_in_range [of e 16] by simp

lemma big_Quo_Rem_double: "big_Quo (h * 2) 2 = h" "big_Rem (h * 2) 2 = 0"
proof -
  show "big_Quo (h * 2) 2 = h" by (simp add: big_Quo_def big_Sign_def abs_mult)
  then show "big_Rem (h * 2) 2 = 0" by (simp add: big_Rem_def)
qed

lemma Div_by_two:
  assumes "- 15 \<le> sint (exp v)" "sint (exp v) \<le> 2147483631"
  shows "Div v (buildDecimal 2 0)
         = Inr \<lparr>value = value v * 5 * 10 ^ nat (sint (exp v) + 15), exp = - 16\<rparr>"
proof -
  define n where "n = nat (sint (exp v) + 15)"
  define h where "h = value v * 5 * 10 ^ n"
  note e = sint32_plus_16 [OF assms(2)]
  have "nat (sint (exp v) + 16) = Suc n" using assms(1) by (simp add: n_def)
  then have aa: "value v * big_Exp 10 (sint (exp v) + 16) = h * 2"
    using assms(1) by (simp add: big_Exp_def h_def)
  have qr: "quoRem v (buildDecimal 2 0) 16
            = Inr (\<lparr>value = h, exp = - 16\<rparr>, \<lparr>value = 0, exp = - 16\<rparr>)"
    unfolding quoRem_def buildDecimal_def Let_def using assms
    by (simp add: e aa big_Quo_Rem_double)
  show ?thesis
    unfolding Div_def divRound_def divisionPrecision_def qr h_def [symmetric] n_def [symmetric]
    by (simp add: Let_def Cmp_same_exp Abs_def buildDecimal_def big_Cmp_def)
qed

lemma Cmp_with_half:
  assumes "- 15 \<le> sint e"
  shows "Cmp \<lparr>value = r, exp = e\<rparr> \<lparr>value = V * 5 * 10 ^ nat (sint e + 15), exp = - 16\<rparr>
         = big_Cmp (2 * r) V"
proof -
  define n where "n = nat (sint e + 15)"
  define P :: int where "P = 5 * 10 ^ n"
  have P: "0 < P" by (simp add: P_def)
  have ne: "e \<noteq> - 16" using assms by auto
  have "nat (sint e + 16) = Suc n" using assms by (simp add: n_def)
  then have r: "rescale \<lparr>value = r, exp = e\<rparr> (- 16) = \<lparr>value = (2 * r) * P, exp = - 16\<rparr>"
    using assms by (simp add: rescale_def Let_def big_Exp_def P_def)
  have m: "min_int32 e (- 16) = - 16" using assms by (simp add: min_int32_def)
  have "Cmp \<lparr>value = r, exp = e\<rparr> \<lparr>value = V * P, exp = - 16\<rparr> = big_Cmp ((2 * r) * P) (V * P)"
    using ne by (simp add: Cmp_def m r Let_def)
  also have "\<dots> = big_Cmp (2 * r) V"
    using P unfolding big_Cmp_def by (simp only: mult_less_cancel_right_pos mult_cancel_right) simp
  finally show ?thesis by (simp add: P_def n_def mult.assoc)
qed

lemma big_Cmp_eq_iff: "big_Cmp a b = 1 \<longleftrightarrow> b < a" "big_Cmp a b = - 1 \<longleftrightarrow> a < b"
  by (simp_all add: big_Cmp_def)

lemma Neg_sel: "value (Neg d) = - value d" "exp (Neg d) = exp d"
  by (simp_all add: Neg_def)

lemma RoundNearest_value:
  assumes U: "0 < value u" "value u \<le> 10 ^ 16"
    and e: "- 15 \<le> sint (exp u)" "sint (exp u) \<le> 2147483631"
  shows "RoundNearest x u =
           Inr \<lparr>value = (if value (Round x (- exp u)) < 0 then - 1 else 1)
                        * (if value u < 2 * (\<bar>value (Round x (- exp u))\<bar> mod value u)
                           then \<bar>value (Round x (- exp u))\<bar> - \<bar>value (Round x (- exp u))\<bar> mod value u
                                + value u
                           else \<bar>value (Round x (- exp u))\<bar> - \<bar>value (Round x (- exp u))\<bar> mod value u),
                 exp = exp u\<rparr>"
proof -
  define rounded where "rounded = Round x (- exp u)"
  define w where "w = value rounded"
  define r where "r = big_Rem w (value u)"
  define n where "n = nat (sint (exp u) + 15)"
  have er: "exp rounded = exp u" by (simp add: rounded_def Round_exp)
  have M: "Mod rounded u = Inr \<lparr>value = r, exp = exp u\<rparr>"
    unfolding r_def w_def using U er by (rule Mod_same_exp)
  show ?thesis
  proof (cases "w < 0")
    case True
    have s: "big_Sign (value rounded) = - 1" using True by (simp add: w_def big_Sign_neg_iff)
    have r': "r = - (\<bar>w\<bar> mod value u)"
    proof -
      have "r = - big_Rem (- w) (value u)" by (simp add: r_def big_Rem_minus)
      also have "big_Rem (- w) (value u) = (- w) mod value u"
        using True U(1) by (intro big_Rem_nonneg) simp_all
      finally show ?thesis using True by simp
    qed
    have H: "Div (Neg u) (buildDecimal 2 0) = Inr \<lparr>value = - (value u * 5 * 10 ^ n), exp = - 16\<rparr>"
      using Div_by_two [of "Neg u"] e by (simp add: Neg_def n_def)
    have C: "Cmp \<lparr>value = r, exp = exp u\<rparr> \<lparr>value = - (value u * 5 * 10 ^ n), exp = - 16\<rparr>
             = big_Cmp (2 * r) (- value u)"
      using Cmp_with_half [OF e(1), of r "- value u"] by (simp add: n_def)
    have "RoundNearest x u = Inr (if 2 * r < - value u
             then \<lparr>value = w + (- value u - r), exp = exp u\<rparr>
             else \<lparr>value = w - r, exp = exp u\<rparr>)"
      unfolding RoundNearest_def rounded_def [symmetric]
      by (simp add: Let_def M s H C big_Cmp_eq_iff Add_same_exp Sub_same_exp Neg_sel er w_def)
    then show ?thesis
      unfolding rounded_def [symmetric] w_def [symmetric] using True by (simp add: r')
  next
    case False
    have s: "big_Sign (value rounded) \<noteq> - 1" using False by (simp add: w_def big_Sign_neg_iff)
    have r': "r = \<bar>w\<bar> mod value u"
      using False U(1) by (simp add: r_def big_Rem_nonneg)
    have H: "Div u (buildDecimal 2 0) = Inr \<lparr>value = value u * 5 * 10 ^ n, exp = - 16\<rparr>"
      unfolding n_def using e by (rule Div_by_two)
    have C: "Cmp \<lparr>value = r, exp = exp u\<rparr> \<lparr>value = value u * 5 * 10 ^ n, exp = - 16\<rparr>
             = big_Cmp (2 * r) (value u)"
      unfolding n_def using e(1) by (rule Cmp_with_half)
    have "RoundNearest x u = Inr (if value u < 2 * r
             then \<lparr>value = w + (value u - r), exp = exp u\<rparr>
             else \<lparr>value = w - r, exp = exp u\<rparr>)"
      unfolding RoundNearest_def rounded_def [symmetric]
      by (simp add: Let_def M s H C big_Cmp_eq_iff Add_same_exp Sub_same_exp er w_def)
    then show ?thesis
      unfolding rounded_def [symmetric] w_def [symmetric] using False by (simp add: r')
  qed
qed

lemma rescale_Neg: "rescale (Neg d) e = Neg (rescale d e)"
  by (simp add: rescale_def Let_def Neg_def big_Quo_minus)

lemma negated_div_10:
  fixes s :: int
  shows "(- s) mod 10 \<noteq> 0 \<Longrightarrow> (- s) div 10 + 1 = - (s div 10)"
    and "(- s) mod 10 = 0 \<Longrightarrow> (- s) div 10 = - (s div 10)"
proof -
  have m: "s mod 10 < 10" by simp
  show "(- s) mod 10 \<noteq> 0 \<Longrightarrow> (- s) div 10 + 1 = - (s div 10)"
    using m by (simp add: zdiv_zminus1_eq_if zmod_zminus1_eq_if split: if_splits)
  show "(- s) mod 10 = 0 \<Longrightarrow> (- s) div 10 = - (s div 10)"
    using m by (simp add: zdiv_zminus1_eq_if zmod_zminus1_eq_if split: if_splits)
qed

lemma round_negative_tens:
  fixes v :: int
  assumes "0 < v"
  shows "(- v - 5) div 10 < 0"
    and "(- v - 5) mod 10 \<noteq> 0 \<Longrightarrow> (- v - 5) div 10 + 1 = - ((v + 5) div 10)"
    and "(- v - 5) mod 10 = 0 \<Longrightarrow> (- v - 5) div 10 = - ((v + 5) div 10)"
    and "\<not> (v + 5) div 10 < 0"
proof -
  show "(- v - 5) div 10 < 0" using assms by (simp add: pos_imp_zdiv_neg_iff)
  show "\<not> (v + 5) div 10 < 0" using assms by (simp add: pos_imp_zdiv_neg_iff)
  show "(- v - 5) mod 10 \<noteq> 0 \<Longrightarrow> (- v - 5) div 10 + 1 = - ((v + 5) div 10)"
    using negated_div_10(1) [of "v + 5"] by simp
  show "(- v - 5) mod 10 = 0 \<Longrightarrow> (- v - 5) div 10 = - ((v + 5) div 10)"
    using negated_div_10(2) [of "v + 5"] by simp
qed

lemma round_tens_odd:
  fixes v :: int
  shows "(let v1 = (if - v < 0 then - v - 5 else - v + 5)
          in if v1 div 10 < 0 \<and> v1 mod 10 \<noteq> 0 then v1 div 10 + 1 else v1 div 10)
       = - (let v1 = (if v < 0 then v - 5 else v + 5)
            in if v1 div 10 < 0 \<and> v1 mod 10 \<noteq> 0 then v1 div 10 + 1 else v1 div 10)"
proof -
  consider "0 < v" | "v = 0" | "v < 0" by linarith
  then show ?thesis
  proof cases
    case 1
    note r = round_negative_tens [OF 1]
    show ?thesis
      using 1 r(1,4) by (cases "(- v - 5) mod 10 = 0") (simp_all add: Let_def r(2,3))
  next
    case 2
    then show ?thesis by simp
  next
    case 3
    then have p: "0 < - v" by simp
    note r = round_negative_tens [OF p]
    have e: "- (- v) - 5 = v - 5" "- v + 5 = 5 - v" by simp_all
    show ?thesis
      using 3 r(1,4) by (cases "(v - 5) mod 10 = 0") (simp_all add: Let_def r(2,3) [unfolded e] e)
  qed
qed

lemma Round_Neg: "Round (Neg x) p = Neg (Round x p)"
proof -
  have 1: "rescale x (- p - 1) = rescale x (- p - 1)" ..
  have 2: "rescale (Neg x) (- p - 1) = Neg (rescale x (- p - 1))" by (rule rescale_Neg)
  show ?thesis
    unfolding Round_after_rescale [OF 1] Round_after_rescale [OF 2]
    by (simp only: Neg_sel round_tens_odd) (simp add: Neg_def)
qed

section \<open>Rounding to a unit: examples\<close>

lemmas decimal_eval = RoundNearest_def money_Round_def Round_def Mod_def Div_def divRound_def
  quoRem_def divisionPrecision_def Truncate_def Mul_def Add_def Sub_def Neg_def Abs_def Cmp_def
  rescale_def min_int32_def buildDecimal_def Let_def big_Sign_def big_Cmp_def big_Quo_def
  big_Rem_def big_Div_def big_Mod_def big_Exp_def

lemma RoundNearest_examples:
  "RoundNearest \<lparr>value = - 13, exp = - 2\<rparr> \<lparr>value = 5, exp = - 2\<rparr> = Inr \<lparr>value = - 15, exp = - 2\<rparr>"
  "RoundNearest \<lparr>value = 13, exp = - 2\<rparr> \<lparr>value = 5, exp = - 2\<rparr> = Inr \<lparr>value = 15, exp = - 2\<rparr>"
  "money_Round \<lparr>value = 12003, exp = - 2\<rparr> \<lparr>value = 5, exp = - 2\<rparr> Mode_RoundToNearest
     = Inr \<lparr>value = 12005, exp = - 2\<rparr>"
  "money_Round \<lparr>value = 12001, exp = - 2\<rparr> \<lparr>value = 5, exp = - 2\<rparr> Mode_RoundToNearest
     = Inr \<lparr>value = 12000, exp = - 2\<rparr>"
  by (simp_all add: decimal_eval)

text \<open>
  C2. A value that, after the initial rounding to the unit's precision, lies exactly
  midway between two adjacent multiples of the unit is to be rounded to the multiple of
  greater magnitude, as \<open>Round\<close> rounds half away from zero and as the test row
  \<open>1.5\<close>, unit \<open>1.00\<close>, expected \<open>2.00\<close> asks. \<open>RoundNearest\<close> rounds up only when the
  remainder compares strictly beyond half the unit (\<open>== cmp\<close>), so at the midpoint it
  rounds towards zero: \<open>0.1\<close> and \<open>- 0.1\<close> with the unit \<open>0.2\<close> both give \<open>0.0\<close>, where the
  remainder \<open>0.1\<close> is exactly half the unit, and \<open>1.5\<close> with the unit \<open>1.00\<close> parsed from
  text gives \<open>1.00\<close>. The test passes only because it builds its unit as \<open>1\<close> with
  exponent 0, for which the initial rounding already gives 2.
\<close>

theorem RoundNearest_midpoint_resolves_toward_zero:
  "Round \<lparr>value = 1, exp = - 1\<rparr> 1 = \<lparr>value = 1, exp = - 1\<rparr>
   \<and> Mod \<lparr>value = 1, exp = - 1\<rparr> \<lparr>value = 2, exp = - 1\<rparr> = Inr \<lparr>value = 1, exp = - 1\<rparr>
   \<and> Div \<lparr>value = 2, exp = - 1\<rparr> (buildDecimal 2 0) = Inr \<lparr>value = 1000000000000000, exp = - 16\<rparr>
   \<and> Cmp \<lparr>value = 1, exp = - 1\<rparr> \<lparr>value = 1000000000000000, exp = - 16\<rparr> = 0
   \<and> RoundNearest \<lparr>value = 1, exp = - 1\<rparr> \<lparr>value = 2, exp = - 1\<rparr> = Inr \<lparr>value = 0, exp = - 1\<rparr>
   \<and> RoundNearest \<lparr>value = - 1, exp = - 1\<rparr> \<lparr>value = 2, exp = - 1\<rparr> = Inr \<lparr>value = 0, exp = - 1\<rparr>
   \<and> RoundNearest \<lparr>value = 15, exp = - 1\<rparr> \<lparr>value = 100, exp = - 2\<rparr> = Inr \<lparr>value = 100, exp = - 2\<rparr>
   \<and> RoundNearest \<lparr>value = 15, exp = - 1\<rparr> \<lparr>value = 1, exp = 0\<rparr> = Inr \<lparr>value = 2, exp = 0\<rparr>"
  by (simp add: decimal_eval)

text \<open>
  C4. \<open>RoundNearest\<close> is to snap to the nearest multiple of the unit with ties away
  from zero. By the strict comparison of C2 a tie goes towards zero instead: 3 with the
  unit 2 gives 2, and \<open>0.14\<close> with the unit \<open>0.2\<close> is first rounded to \<open>0.1\<close> and then to
  \<open>0.0\<close>, although \<open>0.2\<close> is nearer. The result depends on the trailing zeros of the
  unit: \<open>1.45\<close> with the increment \<open>0.1\<close> gives \<open>1.5\<close>, as the comment of \<open>RoundToNearest\<close>
  says, and with the increment \<open>0.10\<close> it gives \<open>1.40\<close>.
\<close>

theorem RoundNearest_tie_not_away_from_zero:
  "RoundNearest \<lparr>value = 3, exp = 0\<rparr> \<lparr>value = 2, exp = 0\<rparr> = Inr \<lparr>value = 2, exp = 0\<rparr>
   \<and> money_Round \<lparr>value = 3, exp = 0\<rparr> \<lparr>value = 2, exp = 0\<rparr> Mode_RoundToNearest = Inr \<lparr>value = 2, exp = 0\<rparr>
   \<and> RoundNearest \<lparr>value = 14, exp = - 2\<rparr> \<lparr>value = 2, exp = - 1\<rparr> = Inr \<lparr>value = 0, exp = - 1\<rparr>
   \<and> money_Round \<lparr>value = 145, exp = - 2\<rparr> \<lparr>value = 1, exp = - 1\<rparr> Mode_RoundToNearest = Inr \<lparr>value = 15, exp = - 1\<rparr>
   \<and> money_Round \<lparr>value = 145, exp = - 2\<rparr> \<lparr>value = 10, exp = - 2\<rparr> Mode_RoundToNearest = Inr \<lparr>value = 140, exp = - 2\<rparr>"
  by (simp add: decimal_eval)

text \<open>
  At an exponent of \<open>- 16\<close> half the unit is itself rounded by \<open>Div\<close>, for a negative unit
  in the wrong direction, and the symmetry under negation is lost.
\<close>

lemma RoundNearest_asymmetric_at_16_digits:
  "RoundNearest \<lparr>value = 2, exp = - 16\<rparr> \<lparr>value = 5, exp = - 16\<rparr> = Inr \<lparr>value = 0, exp = - 16\<rparr>"
  "RoundNearest \<lparr>value = - 2, exp = - 16\<rparr> \<lparr>value = 5, exp = - 16\<rparr> = Inr \<lparr>value = - 5, exp = - 16\<rparr>"
  by (simp_all add: decimal_eval)

section \<open>Rounding to a unit: what the strict comparison computes\<close>

text \<open>
  Apart from the tie, \<open>RoundNearest\<close> does what it is meant to do. For a unit with a
  positive coefficient of at most \<open>10 ^ 16\<close> and an exponent from \<open>- 15\<close> to
  \<open>MaxInt32 - 16\<close> the result is a multiple of the unit, at the unit's exponent, within
  half a unit of \<open>x\<close> rounded to the unit's precision, and the result for \<open>- x\<close> is the
  negation of the result for \<open>x\<close>. Only where the distance is exactly half a unit does
  the code pick the multiple of smaller magnitude, against the policy of \<open>Round\<close>. The
  four examples of the spec are not ties and hold.
\<close>

lemma RoundNearest_within_half_unit:
  assumes U: "0 < value u" "value u \<le> 10 ^ 16"
    and e: "- 15 \<le> sint (exp u)" "sint (exp u) \<le> 2147483631"
  shows "(\<exists>r. RoundNearest x u = Inr r \<and> exp r = exp u
            \<and> value u dvd value r
            \<and> 2 * \<bar>value r - value (Round x (- exp u))\<bar> \<le> value u
            \<and> (2 * \<bar>value r - value (Round x (- exp u))\<bar> = value u
                 \<longrightarrow> \<bar>value r\<bar> < \<bar>value (Round x (- exp u))\<bar>)
            \<and> RoundNearest (Neg x) u = Inr (Neg r))
     \<and> RoundNearest \<lparr>value = - 13, exp = - 2\<rparr> \<lparr>value = 5, exp = - 2\<rparr>
         = Inr \<lparr>value = - 15, exp = - 2\<rparr>
     \<and> RoundNearest \<lparr>value = 13, exp = - 2\<rparr> \<lparr>value = 5, exp = - 2\<rparr>
         = Inr \<lparr>value = 15, exp = - 2\<rparr>
     \<and> money_Round \<lparr>value = 12003, exp = - 2\<rparr> \<lparr>value = 5, exp = - 2\<rparr> Mode_RoundToNearest
         = Inr \<lparr>value = 12005, exp = - 2\<rparr>
     \<and> money_Round \<lparr>value = 12001, exp = - 2\<rparr> \<lparr>value = 5, exp = - 2\<rparr> Mode_RoundToNearest
         = Inr \<lparr>value = 12000, exp = - 2\<rparr>"
proof -
  define w where "w = value (Round x (- exp u))"
  define a where "a = \<bar>w\<bar>"
  define m where "m = a mod value u"
  define t where "t = (if value u < 2 * m then a - m + value u else a - m)"
  define s :: int where "s = (if w < 0 then - 1 else 1)"
  define r where "r = \<lparr>value = s * t, exp = exp u\<rparr>"
  have R: "RoundNearest x u = Inr r"
    unfolding r_def s_def t_def m_def a_def w_def using U e by (rule RoundNearest_value)
  have mb: "0 \<le> m" "m < value u" using U(1) by (simp_all add: m_def)
  have am: "a - m = value u * (a div value u)"
    unfolding m_def by (simp add: minus_mod_eq_mult_div)
  have a0: "0 \<le> a" by (simp add: a_def)
  have "0 \<le> a div value u" using a0 U(1) by (simp add: pos_imp_zdiv_nonneg_iff)
  then have amn: "0 \<le> a - m" using U(1) by (simp add: am)
  have tn: "0 \<le> t" using amn U(1) by (simp add: t_def)
  have ws: "w = s * a" by (simp add: s_def a_def)
  have sa: "\<bar>s\<bar> = 1" by (simp add: s_def)
  have d: "value u dvd value r"
  proof -
    have "value u dvd a - m" by (simp add: am)
    then have "value u dvd t" by (simp add: t_def)
    then show ?thesis by (simp add: r_def)
  qed
  have diff: "\<bar>value r - w\<bar> = (if value u < 2 * m then value u - m else m)"
  proof -
    have "value r - w = s * (t - a)" by (simp add: r_def ws algebra_simps)
    then have "\<bar>value r - w\<bar> = \<bar>t - a\<bar>" by (simp add: abs_mult sa)
    then show ?thesis using mb by (simp add: t_def)
  qed
  have near: "2 * \<bar>value r - w\<bar> \<le> value u" unfolding diff by simp
  have tie: "\<bar>value r\<bar> < \<bar>w\<bar>" if "2 * \<bar>value r - w\<bar> = value u"
  proof -
    from that have "\<not> value u < 2 * m" "2 * m = value u"
      unfolding diff by (auto split: if_splits)
    then have "t = a - m" "0 < m" using U(1) by (simp_all add: t_def)
    moreover have "\<bar>value r\<bar> = t" using tn by (simp add: r_def abs_mult sa)
    ultimately show ?thesis by (simp add: a_def)
  qed
  have neg: "RoundNearest (Neg x) u = Inr (Neg r)"
  proof -
    have w': "value (Round (Neg x) (- exp u)) = - w"
      by (simp add: Round_Neg Neg_sel w_def)
    have "RoundNearest (Neg x) u =
            Inr \<lparr>value = (if - w < 0 then - 1 else 1) * t, exp = exp u\<rparr>"
      using RoundNearest_value [OF U e, of "Neg x"]
      unfolding w' by (simp add: t_def m_def a_def)
    also have "\<lparr>value = (if - w < 0 then - 1 else 1) * t, exp = exp u\<rparr> = Neg r"
    proof (cases "w = 0")
      case True
      then have "t = 0" using U(1) by (simp add: t_def m_def a_def)
      then show ?thesis by (simp add: Neg_def r_def)
    next
      case False
      then show ?thesis by (auto simp: Neg_def r_def s_def)
    qed
    finally show ?thesis .
  qed
  have "exp r = exp u" by (simp add: r_def)
  with R d near tie neg
  have "\<exists>r. RoundNearest x u = Inr r \<and> exp r = exp u
            \<and> value u dvd value r
            \<and> 2 * \<bar>value r - w\<bar> \<le> value u
            \<and> (2 * \<bar>value r - w\<bar> = value u \<longrightarrow> \<bar>value r\<bar> < \<bar>w\<bar>)
            \<and> RoundNearest (Neg x) u = Inr (Neg r)"
    by blast
  then show ?thesis
    unfolding w_def using RoundNearest_examples by blast
qed

lemma RoundNearest_within_half_unit_example:
  "0 < value \<lparr>value = 5, exp = - 2 :: int32\<rparr> \<and> value \<lparr>value = 5, exp = - 2 :: int32\<rparr> \<le> 10 ^ 16
   \<and> - 15 \<le> sint (exp \<lparr>value = 5, exp = - 2 :: int32\<rparr>)
   \<and> sint (exp \<lparr>value = 5, exp = - 2 :: int32\<rparr>) \<le> 2147483631
   \<and> RoundNearest \<lparr>value = 12003, exp = - 2\<rparr> \<lparr>value = 5, exp = - 2\<rparr>
       = Inr \<lparr>value = 12005, exp = - 2\<rparr>
   \<and> RoundNearest (Neg \<lparr>value = 12003, exp = - 2\<rparr>) \<lparr>value = 5, exp = - 2\<rparr>
       = Inr \<lparr>value = - 12005, exp = - 2\<rparr>"
proof -
  let ?u = "\<lparr>value = 5, exp = - 2 :: int32\<rparr>"
  let ?x = "\<lparr>value = 12003, exp = - 2 :: int32\<rparr>"
  have h: "0 < value ?u" "value ?u \<le> 10 ^ 16" "- 15 \<le> sint (exp ?u)" "sint (exp ?u) \<le> 2147483631"
    by simp_all
  have r: "RoundNearest ?x ?u = Inr \<lparr>value = 12005, exp = - 2\<rparr>"
    by (simp add: decimal_eval)
  from RoundNearest_within_half_unit [OF h, of ?x] obtain r' where
    "RoundNearest ?x ?u = Inr r'" "RoundNearest (Neg ?x) ?u = Inr (Neg r')"
    by blast
  with r have "RoundNearest (Neg ?x) ?u = Inr \<lparr>value = - 12005, exp = - 2\<rparr>"
    by (simp add: Neg_def)
  with h r show ?thesis by blast
qed

text \<open>
  The extent of the defect: for such a unit, whenever twice the remainder of the rounded
  magnitude equals the unit, the code returns the adjacent multiple of smaller
  magnitude, for either sign, where the multiple of greater magnitude is due.
\<close>

lemma RoundNearest_every_midpoint_toward_zero:
  assumes U: "0 < value u" "value u \<le> 10 ^ 16"
    and e: "- 15 \<le> sint (exp u)" "sint (exp u) \<le> 2147483631"
    and tie: "2 * (\<bar>value (Round x (- exp u))\<bar> mod value u) = value u"
  shows "RoundNearest x u =
           Inr \<lparr>value = (if value (Round x (- exp u)) < 0 then - 1 else 1)
                        * (\<bar>value (Round x (- exp u))\<bar> - \<bar>value (Round x (- exp u))\<bar> mod value u),
                 exp = exp u\<rparr>
         \<and> value u dvd \<bar>value (Round x (- exp u))\<bar> - \<bar>value (Round x (- exp u))\<bar> mod value u
         \<and> \<bar>value (Round x (- exp u))\<bar> - \<bar>value (Round x (- exp u))\<bar> mod value u
             < \<bar>value (Round x (- exp u))\<bar>
         \<and> \<bar>value (Round x (- exp u))\<bar>
             < \<bar>value (Round x (- exp u))\<bar> - \<bar>value (Round x (- exp u))\<bar> mod value u + value u"
proof -
  define a where "a = \<bar>value (Round x (- exp u))\<bar>"
  define m where "m = a mod value u"
  have t: "2 * m = value u" using tie by (simp add: m_def a_def)
  then have m: "0 < m" "m < value u" "\<not> value u < 2 * m" using U(1) by simp_all
  have "a - m = value u * (a div value u)"
    unfolding m_def by (simp add: minus_mod_eq_mult_div)
  then have d: "value u dvd a - m" by simp
  have "RoundNearest x u =
          Inr \<lparr>value = (if value (Round x (- exp u)) < 0 then - 1 else 1) * (a - m), exp = exp u\<rparr>"
    using RoundNearest_value [OF U e, of x] m(3) by (simp add: m_def a_def)
  with d m show ?thesis
    unfolding m_def a_def by simp
qed

lemma RoundNearest_every_midpoint_toward_zero_example:
  "2 * (\<bar>value (Round \<lparr>value = 3, exp = - 1\<rparr> (- exp \<lparr>value = 2, exp = - 1 :: int32\<rparr>))\<bar>
          mod value \<lparr>value = 2, exp = - 1 :: int32\<rparr>) = value \<lparr>value = 2, exp = - 1 :: int32\<rparr>
   \<and> RoundNearest \<lparr>value = 3, exp = - 1\<rparr> \<lparr>value = 2, exp = - 1\<rparr> = Inr \<lparr>value = 2, exp = - 1\<rparr>
   \<and> RoundNearest \<lparr>value = - 3, exp = - 1\<rparr> \<lparr>value = 2, exp = - 1\<rparr> = Inr \<lparr>value = - 2, exp = - 1\<rparr>"
proof -
  let ?u = "\<lparr>value = 2, exp = - 1 :: int32\<rparr>"
  have h: "0 < value ?u" "value ?u \<le> 10 ^ 16" "- 15 \<le> sint (exp ?u)" "sint (exp ?u) \<le> 2147483631"
    by simp_all
  have r1: "Round \<lparr>value = 3, exp = - 1\<rparr> (- exp ?u) = \<lparr>value = 3, exp = - 1\<rparr>"
    and r2: "Round \<lparr>value = - 3, exp = - 1\<rparr> (- exp ?u) = \<lparr>value = - 3, exp = - 1\<rparr>"
    by (simp_all add: decimal_eval)
  have t1: "2 * (\<bar>value (Round \<lparr>value = 3, exp = - 1\<rparr> (- exp ?u))\<bar> mod value ?u) = value ?u"
    and t2: "2 * (\<bar>value (Round \<lparr>value = - 3, exp = - 1\<rparr> (- exp ?u))\<bar> mod value ?u) = value ?u"
    unfolding r1 r2 by simp_all
  from RoundNearest_every_midpoint_toward_zero [OF h t1]
  have 1: "RoundNearest \<lparr>value = 3, exp = - 1\<rparr> ?u = Inr \<lparr>value = 2, exp = - 1\<rparr>"
    unfolding r1 by simp
  from RoundNearest_every_midpoint_toward_zero [OF h t2]
  have 2: "RoundNearest \<lparr>value = - 3, exp = - 1\<rparr> ?u = Inr \<lparr>value = - 2, exp = - 1\<rparr>"
    unfolding r2 by simp
  from t1 1 2 show ?thesis by blast
qed

end
